theory Spec2Isabelle
  imports Complex_Main "HOL-Library.Sublist"
begin

section \<open>Python values used by \<open>fiftyone/core/models.py\<close>\<close>

text \<open>
  Every \<open>raise\<close> of the source, and every exception of a library call the source makes,
  is a value of \<open>error\<close>; a function that can raise returns \<open>error + 'a\<close> with \<open>Inl\<close>
  the exception.
\<close>

datatype error = ValueError | TypeError | IndexError | NotImplementedError | OSError

subsection \<open>numpy arrays\<close>

text \<open>
  A numpy array is its shape and its elements in row-major order. The elements are
  never computed with, so their type is a parameter. Only the four operations the
  source applies are modelled, each with the exceptions numpy raises:
  \<open>np.concatenate(arrays)\<close> (axis 0), \<open>np.stack(arrays, axis=0)\<close>, \<open>a[0]\<close> and
  iteration over the first axis.
\<close>

datatype 'e ndarray = NdArray (shape: "nat list") (data: "'e list")

definition np_concatenate :: "'e ndarray list \<Rightarrow> error + 'e ndarray" where
  "np_concatenate arrs =
     (case arrs of
        [] \<Rightarrow> Inl ValueError
      | a # _ \<Rightarrow>
          (case shape a of
             [] \<Rightarrow> Inl ValueError
           | _ # tr \<Rightarrow>
               if list_all (\<lambda>b. shape b \<noteq> [] \<and> tl (shape b) = tr) arrs
               then Inr (NdArray (sum_list (map (\<lambda>b. hd (shape b)) arrs) # tr)
                                 (concat (map data arrs)))
               else Inl ValueError))"

definition np_stack :: "'e ndarray list \<Rightarrow> error + 'e ndarray" where
  "np_stack arrs =
     (case arrs of
        [] \<Rightarrow> Inl ValueError
      | a # _ \<Rightarrow>
          if list_all (\<lambda>b. shape b = shape a) arrs
          then Inr (NdArray (length arrs # shape a) (concat (map data arrs)))
          else Inl ValueError)"

definition getitem0 :: "'e ndarray \<Rightarrow> error + 'e ndarray" where
  "getitem0 a =
     (case shape a of
        [] \<Rightarrow> Inl IndexError
      | n # tr \<Rightarrow>
          if n = 0 then Inl IndexError
          else Inr (NdArray tr (take (prod_list tr) (data a))))"

definition row :: "'e ndarray \<Rightarrow> nat \<Rightarrow> 'e ndarray" where
  "row a i = NdArray (tl (shape a))
               (take (prod_list (tl (shape a))) (drop (i * prod_list (tl (shape a))) (data a)))"

definition rows :: "'e ndarray \<Rightarrow> error + 'e ndarray list" where
  "rows a =
     (case shape a of
        [] \<Rightarrow> Inl TypeError
      | n # tr \<Rightarrow> Inr (map (row a) [0..<n]))"

definition wf_array :: "'e ndarray \<Rightarrow> bool" where
  "wf_array a = (length (data a) = prod_list (shape a))"

subsection \<open>Truthiness of an optional field name\<close>

text \<open>
  \<open>if embeddings_field:\<close> is false for \<open>None\<close> and for the empty string;
  \<open>truthy_field f\<close> is the field name when the test succeeds.
\<close>

definition truthy_field :: "string option \<Rightarrow> string option" where
  "truthy_field f = (case f of None \<Rightarrow> None | Some s \<Rightarrow> if s = [] then None else Some s)"

section \<open>Models, samples and the world the pipeline acts on\<close>

text \<open>
  A model is an object with state \<open>'s\<close>; a method takes the state and returns its result
  (or the exception) with the new state. A subclass may override \<open>embed\<close> and
  \<open>embed_all\<close> (\<open>embed_override\<close>, \<open>embed_all_override\<close>); dynamic dispatch, below,
  selects the override when there is one and the default of \<open>EmbeddingsMixin\<close> otherwise.
  \<open>has_embeddings\<close> and \<open>ragged_batches\<close> are properties whose base implementations
  raise \<open>NotImplementedError\<close>, so reading them gives \<open>error + bool\<close>.
  \<open>enter_model\<close> and \<open>exit_model\<close> are the context manager of \<open>with model:\<close>.
\<close>

record ('s, 'img, 'e) model =
  is_embeddings_mixin :: bool
  is_torch_model_mixin :: bool
  has_embeddings :: "error + bool"
  ragged_batches :: "error + bool"
  enter_model :: "'s \<Rightarrow> 's"
  exit_model :: "'s \<Rightarrow> 's"
  predict :: "'img \<Rightarrow> 's \<Rightarrow> (error + unit) \<times> 's"
  get_embeddings :: "'s \<Rightarrow> (error + 'e ndarray) \<times> 's"
  embed_override :: "('img \<Rightarrow> 's \<Rightarrow> (error + 'e ndarray) \<times> 's) option"
  embed_all_override :: "('img list \<Rightarrow> 's \<Rightarrow> (error + 'e ndarray) \<times> 's) option"

record detection =
  det_label :: string
  bounding_box :: "rat \<times> rat \<times> rat \<times> rat"

record polyline =
  points :: "(rat \<times> rat) list list"

datatype 'e fieldval =
    NoneVal
  | DetectionVal detection
  | DetectionsVal "detection list"
  | PolylineVal polyline
  | PolylinesVal "polyline list"
  | ArrayVal "'e ndarray"
  | OtherVal string

datatype media = IMAGE | VIDEO

record sample =
  sid :: string
  filepath :: string

record collection =
  media_type :: media
  samples :: "sample list"

text \<open>
  The effects of the pipeline: the model's state, the fields of the samples
  (\<open>store w i f\<close> is \<open>sample[f]\<close> of the sample with id \<open>i\<close>), and the sequence of
  calls made to the external collaborators.
\<close>

datatype 'img event =
    Decode string
  | OpenVideo string
  | EmbedCall 'img
  | EmbedAllCall "'img list"
  | SetField string string
  | Save string
  | Warning

record ('s, 'img, 'e) world =
  mstate :: 's
  store :: "string \<Rightarrow> string \<Rightarrow> 'e fieldval"
  trace :: "'img event list"

definition emit :: "'img event \<Rightarrow> ('s, 'img, 'e) world \<Rightarrow> ('s, 'img, 'e) world" where
  "emit ev w = w\<lparr>trace := trace w @ [ev]\<rparr>"

section \<open>Batch-size negotiation\<close>

text \<open>
  \<open>_parse_batch_size(batch_size, model)\<close>; \<open>dflt\<close> is \<open>fo.config.default_batch_size\<close>.
  Python's \<open>and\<close> reads \<open>model.ragged_batches\<close> only when the size is present and above 1.
\<close>

definition parse_batch_size ::
  "int option \<Rightarrow> int option \<Rightarrow> ('s, 'img, 'e) model \<Rightarrow> ('s, 'img, 'e) world
     \<Rightarrow> (error + int option) \<times> ('s, 'img, 'e) world" where
  "parse_batch_size dflt batch_size m w =
     (let batch_size = (case batch_size of None \<Rightarrow> dflt | Some b \<Rightarrow> Some b) in
      case batch_size of
        None \<Rightarrow> (Inr None, w)
      | Some b \<Rightarrow>
          if 1 < b then
            (case ragged_batches m of
               Inl e \<Rightarrow> (Inl e, w)
             | Inr True \<Rightarrow> (Inr None, emit Warning w)
             | Inr False \<Rightarrow> (Inr (Some b), w))
          else (Inr (Some b), w))"

section \<open>The default methods of \<open>EmbeddingsMixin\<close>\<close>

text \<open>\<open>EmbeddingsMixin.embed\<close>: \<open>self.predict(arg)\<close>, whose result is dropped, then
  \<open>return self.get_embeddings()\<close>.\<close>

definition EmbeddingsMixin_embed ::
  "('s, 'img, 'e) model \<Rightarrow> 'img \<Rightarrow> 's \<Rightarrow> (error + 'e ndarray) \<times> 's" where
  "EmbeddingsMixin_embed m arg s =
     (case predict m arg s of
        (Inl e, s1) \<Rightarrow> (Inl e, s1)
      | (Inr _, s1) \<Rightarrow> get_embeddings m s1)"

text \<open>\<open>model.embed(arg)\<close> as dispatched.\<close>

definition embed ::
  "('s, 'img, 'e) model \<Rightarrow> 'img \<Rightarrow> 's \<Rightarrow> (error + 'e ndarray) \<times> 's" where
  "embed m = (case embed_override m of None \<Rightarrow> EmbeddingsMixin_embed m | Some f \<Rightarrow> f)"

text \<open>\<open>[self.embed(arg) for arg in args]\<close>: one call per item, in order, stopping at the
  first exception.\<close>

fun embed_each ::
  "('s, 'img, 'e) model \<Rightarrow> 'img list \<Rightarrow> 's \<Rightarrow> (error + 'e ndarray list) \<times> 's" where
  "embed_each m [] s = (Inr [], s)"
| "embed_each m (x # xs) s =
     (case embed m x s of
        (Inl e, s1) \<Rightarrow> (Inl e, s1)
      | (Inr a, s1) \<Rightarrow>
          (case embed_each m xs s1 of
             (Inl e, s2) \<Rightarrow> (Inl e, s2)
           | (Inr es, s2) \<Rightarrow> (Inr (a # es), s2)))"

text \<open>\<open>EmbeddingsMixin.embed_all\<close>: \<open>np.stack([self.embed(arg) for arg in args], axis=0)\<close>.\<close>

definition EmbeddingsMixin_embed_all ::
  "('s, 'img, 'e) model \<Rightarrow> 'img list \<Rightarrow> 's \<Rightarrow> (error + 'e ndarray) \<times> 's" where
  "EmbeddingsMixin_embed_all m args s =
     (case embed_each m args s of
        (Inl e, s1) \<Rightarrow> (Inl e, s1)
      | (Inr es, s1) \<Rightarrow> (np_stack es, s1))"

text \<open>\<open>model.embed_all(args)\<close> as dispatched.\<close>

definition embed_all ::
  "('s, 'img, 'e) model \<Rightarrow> 'img list \<Rightarrow> 's \<Rightarrow> (error + 'e ndarray) \<times> 's" where
  "embed_all m =
     (case embed_all_override m of None \<Rightarrow> EmbeddingsMixin_embed_all m | Some f \<Rightarrow> f)"

section \<open>External collaborators\<close>

text \<open>
  Modelled from the spec: \<open>fiftyone.core.utils.iter_batches\<close> is not among the sources.
  The spec (4.3) has the batched executor partition the sequence "into contiguous
  batches of the negotiated size (last batch may be shorter)"; for a size below 1,
  on which the spec is silent, no batch is produced.
\<close>

function iter_batches :: "'a list \<Rightarrow> int \<Rightarrow> 'a list list" where
  "iter_batches xs n =
     (if n \<le> 0 \<or> xs = [] then []
      else take (nat n) xs # iter_batches (drop (nat n) xs) n)"
  by pat_completeness auto
termination
  by (relation "measure (\<lambda>(xs, n). length xs)") auto

declare iter_batches.simps [simp del]

text \<open>
  The other functions the source calls but does not define are parameters:
  \<open>fo.config.default_batch_size\<close>; \<open>etai.read\<close> and \<open>etav.FFmpegVideoReader\<close>;
  \<open>detection.to_detected_object().bounding_box\<close>, \<open>bbox.pad_relative(alpha)\<close> and
  \<open>bbox.extract_from(img, force_square)\<close>; \<open>Polyline.to_detection\<close> and
  \<open>Polylines.to_detections\<close>; \<open>fov.validate_collection_label_fields\<close>; and the two
  data-loader paths of \<open>fiftyone.utils.torch\<close>.
\<close>

record ('s, 'img, 'e, 'bbox) env =
  default_batch_size :: "int option"
  read_image :: "string \<Rightarrow> error + 'img"
  open_video :: "string \<Rightarrow> error + 'img"
  to_bounding_box :: "detection \<Rightarrow> 'bbox"
  pad_relative :: "'bbox \<Rightarrow> rat \<Rightarrow> 'bbox"
  extract_from :: "'bbox \<Rightarrow> 'img \<Rightarrow> bool \<Rightarrow> 'img"
  to_detection :: "polyline \<Rightarrow> detection"
  to_detections :: "polyline list \<Rightarrow> detection list"
  validate_collection_label_fields :: "collection \<Rightarrow> string \<Rightarrow> error option"
  compute_torch_image_embeddings ::
    "collection \<Rightarrow> ('s, 'img, 'e) model \<Rightarrow> string option \<Rightarrow> int option
       \<Rightarrow> ('s, 'img, 'e) world \<Rightarrow> (error + 'e ndarray option) \<times> ('s, 'img, 'e) world"
  compute_torch_image_patch_embeddings ::
    "collection \<Rightarrow> ('s, 'img, 'e) model \<Rightarrow> string \<Rightarrow> string option \<Rightarrow> int option
       \<Rightarrow> ('s, 'img, 'e) world
       \<Rightarrow> (error + (string \<rightharpoonup> 'e ndarray) option) \<times> ('s, 'img, 'e) world"

section \<open>Calls with their effects\<close>

definition call_embed ::
  "('s, 'img, 'e) model \<Rightarrow> 'img \<Rightarrow> ('s, 'img, 'e) world
     \<Rightarrow> (error + 'e ndarray) \<times> ('s, 'img, 'e) world" where
  "call_embed m x w =
     (case embed m x (mstate w) of
        (r, s) \<Rightarrow> (r, emit (EmbedCall x) (w\<lparr>mstate := s\<rparr>)))"

definition call_embed_all ::
  "('s, 'img, 'e) model \<Rightarrow> 'img list \<Rightarrow> ('s, 'img, 'e) world
     \<Rightarrow> (error + 'e ndarray) \<times> ('s, 'img, 'e) world" where
  "call_embed_all m xs w =
     (case embed_all m xs (mstate w) of
        (r, s) \<Rightarrow> (r, emit (EmbedAllCall xs) (w\<lparr>mstate := s\<rparr>)))"

text \<open>\<open>sample[f] = v\<close> followed by \<open>sample.save()\<close>.\<close>

definition set_field ::
  "string \<Rightarrow> string \<Rightarrow> 'e fieldval \<Rightarrow> ('s, 'img, 'e) world \<Rightarrow> ('s, 'img, 'e) world" where
  "set_field i f v w =
     emit (SetField i f) (w\<lparr>store := (store w)(i := (store w i)(f := v))\<rparr>)"

definition set_and_save ::
  "sample \<Rightarrow> string \<Rightarrow> 'e fieldval \<Rightarrow> ('s, 'img, 'e) world \<Rightarrow> ('s, 'img, 'e) world" where
  "set_and_save s f v w = emit (Save (sid s)) (set_field (sid s) f v w)"

text \<open>\<open>with model:\<close> runs the body between \<open>__enter__\<close> and \<open>__exit__\<close>, on every exit path.\<close>

definition with_model ::
  "('s, 'img, 'e) model \<Rightarrow> (('s, 'img, 'e) world \<Rightarrow> 'r \<times> ('s, 'img, 'e) world)
     \<Rightarrow> ('s, 'img, 'e) world \<Rightarrow> 'r \<times> ('s, 'img, 'e) world" where
  "with_model m body w =
     (case body (w\<lparr>mstate := enter_model m (mstate w)\<rparr>) of
        (r, w1) \<Rightarrow> (r, w1\<lparr>mstate := exit_model m (mstate w1)\<rparr>))"

section \<open>\<open>compute_embeddings\<close>\<close>

text \<open>The loop of \<open>_compute_image_embeddings_single\<close>; \<open>embs\<close> is the list \<open>embeddings\<close>.\<close>

fun single_loop ::
  "('s, 'img, 'e, 'bbox) env \<Rightarrow> ('s, 'img, 'e) model \<Rightarrow> string option \<Rightarrow> sample list
     \<Rightarrow> 'e ndarray list \<Rightarrow> ('s, 'img, 'e) world
     \<Rightarrow> (error + 'e ndarray list) \<times> ('s, 'img, 'e) world" where
  "single_loop env m ef [] embs w = (Inr embs, w)"
| "single_loop env m ef (s # ss) embs w =
     (case read_image env (filepath s) of
        Inl e \<Rightarrow> (Inl e, emit (Decode (filepath s)) w)
      | Inr img \<Rightarrow>
          (case call_embed m img (emit (Decode (filepath s)) w) of
             (Inl e, w1) \<Rightarrow> (Inl e, w1)
           | (Inr embedding, w1) \<Rightarrow>
               (case truthy_field ef of
                  Some f \<Rightarrow>
                    (case getitem0 embedding of
                       Inl e \<Rightarrow> (Inl e, w1)
                     | Inr v \<Rightarrow> single_loop env m ef ss embs (set_and_save s f (ArrayVal v) w1))
                | None \<Rightarrow> single_loop env m ef ss (embs @ [embedding]) w1)))"

text \<open>The end of both image functions and of the video function: \<open>None\<close> in field mode,
  \<open>np.concatenate(embeddings)\<close> otherwise.\<close>

definition finish_embeddings ::
  "string option \<Rightarrow> (error + 'e ndarray list) \<times> 'w \<Rightarrow> (error + 'e ndarray option) \<times> 'w" where
  "finish_embeddings ef rw =
     (case rw of
        (Inl e, w) \<Rightarrow> (Inl e, w)
      | (Inr embs, w) \<Rightarrow>
          (case truthy_field ef of
             Some _ \<Rightarrow> (Inr None, w)
           | None \<Rightarrow>
               (case np_concatenate embs of
                  Inl e \<Rightarrow> (Inl e, w)
                | Inr a \<Rightarrow> (Inr (Some a), w))))"

definition compute_image_embeddings_single ::
  "('s, 'img, 'e, 'bbox) env \<Rightarrow> sample list \<Rightarrow> ('s, 'img, 'e) model \<Rightarrow> string option
     \<Rightarrow> ('s, 'img, 'e) world \<Rightarrow> (error + 'e ndarray option) \<times> ('s, 'img, 'e) world" where
  "compute_image_embeddings_single env ss m ef w =
     finish_embeddings ef (with_model m (single_loop env m ef ss []) w)"

text \<open>\<open>[etai.read(sample.filepath) for sample in sample_batch]\<close>.\<close>

fun read_all ::
  "('s, 'img, 'e, 'bbox) env \<Rightarrow> sample list \<Rightarrow> ('s, 'img, 'e) world
     \<Rightarrow> (error + 'img list) \<times> ('s, 'img, 'e) world" where
  "read_all env [] w = (Inr [], w)"
| "read_all env (s # ss) w =
     (case read_image env (filepath s) of
        Inl e \<Rightarrow> (Inl e, emit (Decode (filepath s)) w)
      | Inr img \<Rightarrow>
          (case read_all env ss (emit (Decode (filepath s)) w) of
             (Inl e, w1) \<Rightarrow> (Inl e, w1)
           | (Inr imgs, w1) \<Rightarrow> (Inr (img # imgs), w1)))"

text \<open>\<open>for sample, embedding in zip(sample_batch, embeddings_batch)\<close>: the shorter of the
  two ends the loop.\<close>

fun write_rows ::
  "string \<Rightarrow> sample list \<Rightarrow> 'e ndarray list \<Rightarrow> ('s, 'img, 'e) world \<Rightarrow> ('s, 'img, 'e) world" where
  "write_rows f (s # ss) (r # rs) w = write_rows f ss rs (set_and_save s f (ArrayVal r) w)"
| "write_rows f _ _ w = w"

text \<open>The loop of \<open>_compute_image_embeddings_batch\<close> over the batches of \<open>samples_loader\<close>.\<close>

fun batch_loop ::
  "('s, 'img, 'e, 'bbox) env \<Rightarrow> ('s, 'img, 'e) model \<Rightarrow> string option \<Rightarrow> sample list list
     \<Rightarrow> 'e ndarray list \<Rightarrow> ('s, 'img, 'e) world
     \<Rightarrow> (error + 'e ndarray list) \<times> ('s, 'img, 'e) world" where
  "batch_loop env m ef [] embs w = (Inr embs, w)"
| "batch_loop env m ef (sample_batch # bs) embs w =
     (case read_all env sample_batch w of
        (Inl e, w1) \<Rightarrow> (Inl e, w1)
      | (Inr imgs, w1) \<Rightarrow>
          (case call_embed_all m imgs w1 of
             (Inl e, w2) \<Rightarrow> (Inl e, w2)
           | (Inr embeddings_batch, w2) \<Rightarrow>
               (case truthy_field ef of
                  Some f \<Rightarrow>
                    (case rows embeddings_batch of
                       Inl e \<Rightarrow> (Inl e, w2)
                     | Inr rs \<Rightarrow> batch_loop env m ef bs embs (write_rows f sample_batch rs w2))
                | None \<Rightarrow> batch_loop env m ef bs (embs @ [embeddings_batch]) w2)))"

definition compute_image_embeddings_batch ::
  "('s, 'img, 'e, 'bbox) env \<Rightarrow> sample list \<Rightarrow> ('s, 'img, 'e) model \<Rightarrow> string option \<Rightarrow> int
     \<Rightarrow> ('s, 'img, 'e) world \<Rightarrow> (error + 'e ndarray option) \<times> ('s, 'img, 'e) world" where
  "compute_image_embeddings_batch env ss m ef batch_size w =
     finish_embeddings ef
       (with_model m (batch_loop env m ef (iter_batches ss batch_size) []) w)"

text \<open>The loop of \<open>_compute_video_embeddings\<close>.\<close>

fun video_loop ::
  "('s, 'img, 'e, 'bbox) env \<Rightarrow> ('s, 'img, 'e) model \<Rightarrow> string option \<Rightarrow> sample list
     \<Rightarrow> 'e ndarray list \<Rightarrow> ('s, 'img, 'e) world
     \<Rightarrow> (error + 'e ndarray list) \<times> ('s, 'img, 'e) world" where
  "video_loop env m ef [] embs w = (Inr embs, w)"
| "video_loop env m ef (s # ss) embs w =
     (case open_video env (filepath s) of
        Inl e \<Rightarrow> (Inl e, emit (OpenVideo (filepath s)) w)
      | Inr video_reader \<Rightarrow>
          (case call_embed m video_reader (emit (OpenVideo (filepath s)) w) of
             (Inl e, w1) \<Rightarrow> (Inl e, w1)
           | (Inr embedding, w1) \<Rightarrow>
               (case truthy_field ef of
                  Some f \<Rightarrow>
                    (case getitem0 embedding of
                       Inl e \<Rightarrow> (Inl e, w1)
                     | Inr v \<Rightarrow> video_loop env m ef ss embs (set_and_save s f (ArrayVal v) w1))
                | None \<Rightarrow> video_loop env m ef ss (embs @ [embedding]) w1)))"

definition compute_video_embeddings ::
  "('s, 'img, 'e, 'bbox) env \<Rightarrow> sample list \<Rightarrow> ('s, 'img, 'e) model \<Rightarrow> string option
     \<Rightarrow> ('s, 'img, 'e) world \<Rightarrow> (error + 'e ndarray option) \<times> ('s, 'img, 'e) world" where
  "compute_video_embeddings env ss m ef w =
     finish_embeddings ef (with_model m (video_loop env m ef ss []) w)"

definition compute_embeddings ::
  "('s, 'img, 'e, 'bbox) env \<Rightarrow> collection \<Rightarrow> ('s, 'img, 'e) model \<Rightarrow> string option
     \<Rightarrow> int option \<Rightarrow> ('s, 'img, 'e) world
     \<Rightarrow> (error + 'e ndarray option) \<times> ('s, 'img, 'e) world" where
  "compute_embeddings env coll m embeddings_field batch_size w =
     (if \<not> is_embeddings_mixin m then (Inl ValueError, w)
      else
        (case has_embeddings m of
           Inl e \<Rightarrow> (Inl e, w)
         | Inr False \<Rightarrow> (Inl ValueError, w)
         | Inr True \<Rightarrow>
             if media_type coll = VIDEO
             then compute_video_embeddings env (samples coll) m embeddings_field w
             else if is_torch_model_mixin m
             then compute_torch_image_embeddings env coll m embeddings_field batch_size w
             else
               (case parse_batch_size (default_batch_size env) batch_size m w of
                  (Inl e, w1) \<Rightarrow> (Inl e, w1)
                | (Inr (Some b), w1) \<Rightarrow>
                    compute_image_embeddings_batch env (samples coll) m embeddings_field b w1
                | (Inr None, w1) \<Rightarrow>
                    compute_image_embeddings_single env (samples coll) m embeddings_field w1)))"

section \<open>\<open>compute_patch_embeddings\<close>\<close>

text \<open>\<open>_parse_patches(sample, patches_field)\<close>: the \<open>isinstance\<close> tests in the source's
  order; \<open>None\<close> for any other value of the field.\<close>

definition parse_patches ::
  "('s, 'img, 'e, 'bbox) env \<Rightarrow> ('s, 'img, 'e) world \<Rightarrow> sample \<Rightarrow> string
     \<Rightarrow> detection list option" where
  "parse_patches env w s patches_field =
     (case store w (sid s) patches_field of
        DetectionsVal ds \<Rightarrow> Some ds
      | DetectionVal d \<Rightarrow> Some [d]
      | PolylineVal p \<Rightarrow> Some [to_detection env p]
      | PolylinesVal ps \<Rightarrow> Some (to_detections env ps)
      | _ \<Rightarrow> None)"

text \<open>\<open>_extract_patch(img, detection, force_square, alpha)\<close>.\<close>

definition extract_patch ::
  "('s, 'img, 'e, 'bbox) env \<Rightarrow> 'img \<Rightarrow> detection \<Rightarrow> bool \<Rightarrow> rat option \<Rightarrow> 'img" where
  "extract_patch env img d force_square alpha =
     (let bbox = to_bounding_box env d;
          bbox = (case alpha of None \<Rightarrow> bbox | Some a \<Rightarrow> pad_relative env bbox a)
      in extract_from env bbox img force_square)"

text \<open>The loop of \<open>_embed_patches_single\<close> and the function.\<close>

fun patches_single_loop ::
  "('s, 'img, 'e, 'bbox) env \<Rightarrow> ('s, 'img, 'e) model \<Rightarrow> 'img \<Rightarrow> bool \<Rightarrow> rat option
     \<Rightarrow> detection list \<Rightarrow> 'e ndarray list \<Rightarrow> ('s, 'img, 'e) world
     \<Rightarrow> (error + 'e ndarray list) \<times> ('s, 'img, 'e) world" where
  "patches_single_loop env m img fs alpha [] embs w = (Inr embs, w)"
| "patches_single_loop env m img fs alpha (d # ds) embs w =
     (case call_embed m (extract_patch env img d fs alpha) w of
        (Inl e, w1) \<Rightarrow> (Inl e, w1)
      | (Inr embedding, w1) \<Rightarrow>
          patches_single_loop env m img fs alpha ds (embs @ [embedding]) w1)"

definition embed_patches_single ::
  "('s, 'img, 'e, 'bbox) env \<Rightarrow> ('s, 'img, 'e) model \<Rightarrow> 'img \<Rightarrow> detection list \<Rightarrow> bool
     \<Rightarrow> rat option \<Rightarrow> ('s, 'img, 'e) world \<Rightarrow> (error + 'e ndarray) \<times> ('s, 'img, 'e) world" where
  "embed_patches_single env m img dets fs alpha w =
     (case patches_single_loop env m img fs alpha dets [] w of
        (Inl e, w1) \<Rightarrow> (Inl e, w1)
      | (Inr embs, w1) \<Rightarrow> (np_concatenate embs, w1))"

text \<open>The loop of \<open>_embed_patches_batch\<close> over the batches of detections, and the function.\<close>

fun patches_batch_loop ::
  "('s, 'img, 'e, 'bbox) env \<Rightarrow> ('s, 'img, 'e) model \<Rightarrow> 'img \<Rightarrow> bool \<Rightarrow> rat option
     \<Rightarrow> detection list list \<Rightarrow> 'e ndarray list \<Rightarrow> ('s, 'img, 'e) world
     \<Rightarrow> (error + 'e ndarray list) \<times> ('s, 'img, 'e) world" where
  "patches_batch_loop env m img fs alpha [] embs w = (Inr embs, w)"
| "patches_batch_loop env m img fs alpha (detection_batch # bs) embs w =
     (case call_embed_all m (map (\<lambda>d. extract_patch env img d fs alpha) detection_batch) w of
        (Inl e, w1) \<Rightarrow> (Inl e, w1)
      | (Inr embeddings_batch, w1) \<Rightarrow>
          patches_batch_loop env m img fs alpha bs (embs @ [embeddings_batch]) w1)"

definition embed_patches_batch ::
  "('s, 'img, 'e, 'bbox) env \<Rightarrow> ('s, 'img, 'e) model \<Rightarrow> 'img \<Rightarrow> detection list \<Rightarrow> bool
     \<Rightarrow> rat option \<Rightarrow> int \<Rightarrow> ('s, 'img, 'e) world
     \<Rightarrow> (error + 'e ndarray) \<times> ('s, 'img, 'e) world" where
  "embed_patches_batch env m img dets fs alpha batch_size w =
     (case patches_batch_loop env m img fs alpha (iter_batches dets batch_size) [] w of
        (Inl e, w1) \<Rightarrow> (Inl e, w1)
      | (Inr embs, w1) \<Rightarrow> (np_concatenate embs, w1))"

text \<open>One iteration of the \<open>for sample in pb(samples)\<close> loop after a sample passed the
  test for detections: decode, embed, then write the field or fill the dictionary.\<close>

definition embed_sample_patches ::
  "('s, 'img, 'e, 'bbox) env \<Rightarrow> ('s, 'img, 'e) model \<Rightarrow> int option \<Rightarrow> bool \<Rightarrow> rat option
     \<Rightarrow> sample \<Rightarrow> detection list \<Rightarrow> ('s, 'img, 'e) world
     \<Rightarrow> (error + 'e ndarray) \<times> ('s, 'img, 'e) world" where
  "embed_sample_patches env m batch_size fs alpha s dets w =
     (case read_image env (filepath s) of
        Inl e \<Rightarrow> (Inl e, emit (Decode (filepath s)) w)
      | Inr img \<Rightarrow>
          (case batch_size of
             None \<Rightarrow> embed_patches_single env m img dets fs alpha (emit (Decode (filepath s)) w)
           | Some b \<Rightarrow>
               embed_patches_batch env m img dets fs alpha b (emit (Decode (filepath s)) w)))"

fun patch_loop ::
  "('s, 'img, 'e, 'bbox) env \<Rightarrow> ('s, 'img, 'e) model \<Rightarrow> string \<Rightarrow> string option
     \<Rightarrow> int option \<Rightarrow> bool \<Rightarrow> rat option \<Rightarrow> sample list \<Rightarrow> (string \<rightharpoonup> 'e ndarray)
     \<Rightarrow> ('s, 'img, 'e) world
     \<Rightarrow> (error + (string \<rightharpoonup> 'e ndarray)) \<times> ('s, 'img, 'e) world" where
  "patch_loop env m pf ef batch_size fs alpha [] embeddings_dict w = (Inr embeddings_dict, w)"
| "patch_loop env m pf ef batch_size fs alpha (s # ss) embeddings_dict w =
     (case parse_patches env w s pf of
        None \<Rightarrow> patch_loop env m pf ef batch_size fs alpha ss embeddings_dict w
      | Some dets \<Rightarrow>
          if dets = [] then patch_loop env m pf ef batch_size fs alpha ss embeddings_dict w
          else
            (case embed_sample_patches env m batch_size fs alpha s dets w of
               (Inl e, w1) \<Rightarrow> (Inl e, w1)
             | (Inr embeddings, w1) \<Rightarrow>
                 (case truthy_field ef of
                    Some f \<Rightarrow>
                      patch_loop env m pf ef batch_size fs alpha ss embeddings_dict
                        (set_and_save s f (ArrayVal embeddings) w1)
                  | None \<Rightarrow>
                      patch_loop env m pf ef batch_size fs alpha ss
                        (embeddings_dict(sid s \<mapsto> embeddings)) w1)))"

definition compute_patch_embeddings ::
  "('s, 'img, 'e, 'bbox) env \<Rightarrow> collection \<Rightarrow> ('s, 'img, 'e) model \<Rightarrow> string
     \<Rightarrow> string option \<Rightarrow> int option \<Rightarrow> bool \<Rightarrow> rat option \<Rightarrow> ('s, 'img, 'e) world
     \<Rightarrow> (error + (string \<rightharpoonup> 'e ndarray) option) \<times> ('s, 'img, 'e) world" where
  "compute_patch_embeddings env coll m patches_field embeddings_field batch_size
       force_square alpha w =
     (if media_type coll \<noteq> IMAGE then (Inl ValueError, w)
      else if \<not> is_embeddings_mixin m then (Inl ValueError, w)
      else
        (case has_embeddings m of
           Inl e \<Rightarrow> (Inl e, w)
         | Inr False \<Rightarrow> (Inl ValueError, w)
         | Inr True \<Rightarrow>
             if is_torch_model_mixin m
             then compute_torch_image_patch_embeddings env coll m patches_field
                    embeddings_field batch_size w
             else
               (case validate_collection_label_fields env coll patches_field of
                  Some e \<Rightarrow> (Inl e, w)
                | None \<Rightarrow>
                    (case parse_batch_size (default_batch_size env) batch_size m w of
                       (Inl e, w1) \<Rightarrow> (Inl e, w1)
                     | (Inr b, w1) \<Rightarrow>
                         (case with_model m
                                 (patch_loop env m patches_field embeddings_field b
                                    force_square alpha (samples coll) Map.empty) w1 of
                            (Inl e, w2) \<Rightarrow> (Inl e, w2)
                          | (Inr embeddings_dict, w2) \<Rightarrow>
                              (Inr (case truthy_field embeddings_field of
                                      None \<Rightarrow> Some embeddings_dict
                                    | Some _ \<Rightarrow> None), w2))))))"

section \<open>Patch geometry\<close>

text \<open>
  Modelled from the spec: \<open>Detection.to_detected_object\<close> (\<open>fiftyone.core.labels\<close>) and the
  bounding box operations \<open>pad_relative\<close> and \<open>extract_from\<close> it hands over to are not
  among the sources. The spec (3, 4.5 step 3) takes the detection's normalized box
  \<open>[x, y, w, h]\<close>; with \<open>alpha\<close> it scales "both box dimensions by (1 + alpha) about the
  box center, clamped to remain a valid box"; with \<open>force_square\<close> it grows "the shorter
  side so width equals height, centered on the original box"; then it converts to pixel
  coordinates and crops. Coordinates are exact rationals here; the spec does not fix
  the rounding to pixels, and each corner is rounded down. An image is the list of its
  rows of pixels.
\<close>

type_synonym box = "rat \<times> rat \<times> rat \<times> rat"

definition valid_box :: "box \<Rightarrow> bool" where
  "valid_box b =
     (case b of (x, y, w, h) \<Rightarrow> 0 \<le> x \<and> 0 \<le> y \<and> 0 \<le> w \<and> 0 \<le> h \<and> x + w \<le> 1 \<and> y + h \<le> 1)"

definition clamp01 :: "rat \<Rightarrow> rat" where
  "clamp01 v = max 0 (min 1 v)"

definition spec_pad_relative :: "box \<Rightarrow> rat \<Rightarrow> box" where
  "spec_pad_relative b alpha =
     (case b of (x, y, w, h) \<Rightarrow>
        let cx = x + w / 2; cy = y + h / 2;
            w' = w * (1 + alpha); h' = h * (1 + alpha);
            x1 = clamp01 (cx - w' / 2); y1 = clamp01 (cy - h' / 2);
            x2 = clamp01 (cx + w' / 2); y2 = clamp01 (cy + h' / 2)
        in (x1, y1, x2 - x1, y2 - y1))"

definition pixel_box :: "box \<Rightarrow> nat \<Rightarrow> nat \<Rightarrow> int \<times> int \<times> int \<times> int" where
  "pixel_box b width height =
     (case b of (x, y, w, h) \<Rightarrow>
        let x1 = \<lfloor>x * of_nat width\<rfloor>; y1 = \<lfloor>y * of_nat height\<rfloor>;
            x2 = \<lfloor>(x + w) * of_nat width\<rfloor>; y2 = \<lfloor>(y + h) * of_nat height\<rfloor>
        in (x1, y1, x2 - x1, y2 - y1))"

definition make_square :: "int \<times> int \<times> int \<times> int \<Rightarrow> int \<times> int \<times> int \<times> int" where
  "make_square pb =
     (case pb of (x, y, w, h) \<Rightarrow>
        let side = max w h in (x - (side - w) div 2, y - (side - h) div 2, side, side))"

definition img_height :: "'px list list \<Rightarrow> nat" where
  "img_height img = length img"

definition img_width :: "'px list list \<Rightarrow> nat" where
  "img_width img = (case img of [] \<Rightarrow> 0 | r # _ \<Rightarrow> length r)"

definition crop :: "'px list list \<Rightarrow> int \<times> int \<times> int \<times> int \<Rightarrow> 'px list list" where
  "crop img pb =
     (case pb of (x, y, w, h) \<Rightarrow>
        map (\<lambda>r. take (nat w) (drop (nat x) r)) (take (nat h) (drop (nat y) img)))"

definition spec_extract_from :: "box \<Rightarrow> 'px list list \<Rightarrow> bool \<Rightarrow> 'px list list" where
  "spec_extract_from b img force_square =
     (let pb = pixel_box b (img_width img) (img_height img)
      in crop img (if force_square then make_square pb else pb))"

text \<open>The environments whose geometry is the one above.\<close>

definition spec_geometry :: "('s, 'px list list, 'e, box) env \<Rightarrow> bool" where
  "spec_geometry env =
     (to_bounding_box env = bounding_box \<and> pad_relative env = spec_pad_relative
      \<and> extract_from env = spec_extract_from)"

section \<open>\<open>fiftyone/utils/voc.py\<close>: \<open>export_voc_detection_dataset\<close>\<close>

subsection \<open>\<open>os.path\<close> on POSIX paths\<close>

definition basename :: "string \<Rightarrow> string" where
  "basename p = rev (takeWhile (\<lambda>c. c \<noteq> CHR ''/'') (rev p))"

text \<open>
  \<open>os.path.splitext\<close>: the extension starts at the last dot of the last path component,
  unless only dots precede it there.
\<close>

definition splitext :: "string \<Rightarrow> string \<times> string" where
  "splitext p =
     (if CHR ''.'' \<notin> set p then (p, [])
      else
        let ext = CHR ''.'' # rev (takeWhile (\<lambda>c. c \<noteq> CHR ''.'') (rev p));
            root = rev (tl (dropWhile (\<lambda>c. c \<noteq> CHR ''.'') (rev p)))
        in if CHR ''/'' \<notin> set ext \<and> list_ex (\<lambda>c. c \<noteq> CHR ''.'') (basename root)
           then (root, ext) else (p, []))"

definition path_join :: "string \<Rightarrow> string \<Rightarrow> string" where
  "path_join a b =
     (if b \<noteq> [] \<and> hd b = CHR ''/'' then b
      else if a = [] \<or> last a = CHR ''/'' then a @ b
      else a @ ''/'' @ b)"

subsection \<open>Python's \<open>+\<close> on strings and integers\<close>

datatype pyval = PyStr string | PyInt int

fun py_add :: "pyval \<Rightarrow> pyval \<Rightarrow> error + pyval" where
  "py_add (PyStr a) (PyStr b) = Inr (PyStr (a @ b))"
| "py_add (PyInt a) (PyInt b) = Inr (PyInt (a + b))"
| "py_add _ _ = Inl TypeError"

subsection \<open>The export\<close>

text \<open>
  The file system and the libraries that act on it are parameters: \<open>etau.ensure_dir\<close>,
  the loading of the jinja2 template in \<open>VOCAnnotationWriter()\<close>, \<open>etau.copy_file\<close>,
  \<open>etai.read\<close>, and \<open>writer.write_annotation(img, label, img_path, xml_path)\<close>, which
  renders the template and writes it to \<open>xml_path\<close>. Each takes the state \<open>'fs\<close> of the
  file system and may raise. The calls made are recorded.
\<close>

record ('fs, 'img, 'lab) voc_env =
  ensure_dir :: "string \<Rightarrow> 'fs \<Rightarrow> error + 'fs"
  load_template :: "'fs \<Rightarrow> error option"
  copy_file :: "string \<Rightarrow> string \<Rightarrow> 'fs \<Rightarrow> error + 'fs"
  read_img :: "string \<Rightarrow> 'fs \<Rightarrow> error + 'img"
  write_annotation :: "'img \<Rightarrow> 'lab \<Rightarrow> string \<Rightarrow> string \<Rightarrow> 'fs \<Rightarrow> error + 'fs"

datatype voc_event =
    EnsureDir string
  | CopyFile string string
  | ReadImg string
  | WriteAnnotation string string

record 'fs voc_world =
  files :: 'fs
  calls :: "voc_event list"

definition voc_emit :: "voc_event \<Rightarrow> 'fs voc_world \<Rightarrow> 'fs voc_world" where
  "voc_emit ev w = w\<lparr>calls := calls w @ [ev]\<rparr>"

text \<open>\<open>if count > 1: name += "-%d" + count\<close>: the right-hand side is evaluated first.\<close>

definition dedup_name :: "string \<Rightarrow> int \<Rightarrow> error + string" where
  "dedup_name name count =
     (if 1 < count then
        (case py_add (PyStr ''-%d'') (PyInt count) of
           Inl e \<Rightarrow> Inl e
         | Inr appended \<Rightarrow>
             (case py_add (PyStr name) appended of
                Inl e \<Rightarrow> Inl e
              | Inr (PyStr name') \<Rightarrow> Inr name'
              | Inr (PyInt _) \<Rightarrow> Inl TypeError))
      else Inr name)"

text \<open>The three calls at the end of the loop body.\<close>

definition export_one ::
  "('fs, 'img, 'lab) voc_env \<Rightarrow> string \<Rightarrow> 'lab \<Rightarrow> string \<Rightarrow> string \<Rightarrow> 'fs voc_world
     \<Rightarrow> (error + unit) \<times> 'fs voc_world" where
  "export_one env img_path label out_img_path out_anno_path w =
     (case copy_file env img_path out_img_path (files w) of
        Inl e \<Rightarrow> (Inl e, voc_emit (CopyFile img_path out_img_path) w)
      | Inr fs1 \<Rightarrow>
          (case read_img env img_path fs1 of
             Inl e \<Rightarrow>
               (Inl e, voc_emit (ReadImg img_path)
                         (voc_emit (CopyFile img_path out_img_path) (w\<lparr>files := fs1\<rparr>)))
           | Inr img \<Rightarrow>
               (case write_annotation env img label out_img_path out_anno_path fs1 of
                  Inl e \<Rightarrow>
                    (Inl e, voc_emit (WriteAnnotation out_img_path out_anno_path)
                              (voc_emit (ReadImg img_path)
                                 (voc_emit (CopyFile img_path out_img_path) (w\<lparr>files := fs1\<rparr>))))
                | Inr fs2 \<Rightarrow>
                    (Inr (), voc_emit (WriteAnnotation out_img_path out_anno_path)
                               (voc_emit (ReadImg img_path)
                                  (voc_emit (CopyFile img_path out_img_path)
                                     (w\<lparr>files := fs2\<rparr>)))))))"

text \<open>The loop \<open>for img_path, label in pb(zip(image_paths, labels))\<close>;
  \<open>counts\<close> is \<open>data_filename_counts\<close>, a \<open>defaultdict(int)\<close>.\<close>

fun export_loop ::
  "('fs, 'img, 'lab) voc_env \<Rightarrow> string \<Rightarrow> string \<Rightarrow> (string \<times> 'lab) list
     \<Rightarrow> (string \<Rightarrow> int) \<Rightarrow> 'fs voc_world \<Rightarrow> (error + unit) \<times> 'fs voc_world" where
  "export_loop env data_dir labels_dir [] counts w = (Inr (), w)"
| "export_loop env data_dir labels_dir ((img_path, label) # rest) counts w =
     (case splitext (basename img_path) of
        (name, ext) \<Rightarrow>
          let counts = counts(name := counts name + 1);
              count = counts name
          in (case dedup_name name count of
                Inl e \<Rightarrow> (Inl e, w)
              | Inr name \<Rightarrow>
                  (case export_one env img_path label (path_join data_dir (name @ ext))
                          (path_join labels_dir (name @ ''.xml'')) w of
                     (Inl e, w1) \<Rightarrow> (Inl e, w1)
                   | (Inr _, w1) \<Rightarrow> export_loop env data_dir labels_dir rest counts w1)))"

definition export_voc_detection_dataset ::
  "('fs, 'img, 'lab) voc_env \<Rightarrow> string list \<Rightarrow> 'lab list \<Rightarrow> string \<Rightarrow> 'fs voc_world
     \<Rightarrow> (error + unit) \<times> 'fs voc_world" where
  "export_voc_detection_dataset env image_paths labels dataset_dir w =
     (let data_dir = path_join dataset_dir ''data'';
          labels_dir = path_join dataset_dir ''labels''
      in case ensure_dir env data_dir (files w) of
           Inl e \<Rightarrow> (Inl e, voc_emit (EnsureDir data_dir) w)
         | Inr fs1 \<Rightarrow>
             (case ensure_dir env labels_dir fs1 of
                Inl e \<Rightarrow>
                  (Inl e, voc_emit (EnsureDir labels_dir)
                            (voc_emit (EnsureDir data_dir) (w\<lparr>files := fs1\<rparr>)))
              | Inr fs2 \<Rightarrow>
                  (case load_template env fs2 of
                     Some e \<Rightarrow>
                       (Inl e, voc_emit (EnsureDir labels_dir)
                                 (voc_emit (EnsureDir data_dir) (w\<lparr>files := fs2\<rparr>)))
                   | None \<Rightarrow>
                       export_loop env data_dir labels_dir (zip image_paths labels) (\<lambda>_. 0)
                         (voc_emit (EnsureDir labels_dir)
                            (voc_emit (EnsureDir data_dir) (w\<lparr>files := fs2\<rparr>))))))"

text \<open>The name under which the file of \<open>img_path\<close> is counted.\<close>

definition stem :: "string \<Rightarrow> string" where
  "stem img_path = fst (splitext (basename img_path))"

text \<open>The copies among the calls, as (source, destination).\<close>

fun copies :: "voc_event list \<Rightarrow> (string \<times> string) list" where
  "copies [] = []"
| "copies (CopyFile src dst # evs) = (src, dst) # copies evs"
| "copies (_ # evs) = copies evs"

section \<open>Observations on traces and worlds\<close>

text \<open>The samples saved and the fields set, read off a sequence of events.\<close>

fun saved_ids :: "'img event list \<Rightarrow> string list" where
  "saved_ids [] = []"
| "saved_ids (Save i # evs) = i # saved_ids evs"
| "saved_ids (_ # evs) = saved_ids evs"

fun set_fields :: "'img event list \<Rightarrow> (string \<times> string) list" where
  "set_fields [] = []"
| "set_fields (SetField i f # evs) = (i, f) # set_fields evs"
| "set_fields (_ # evs) = set_fields evs"

fun embed_all_calls :: "'img event list \<Rightarrow> 'img list list" where
  "embed_all_calls [] = []"
| "embed_all_calls (EmbedAllCall xs # evs) = xs # embed_all_calls evs"
| "embed_all_calls (_ # evs) = embed_all_calls evs"

fun embed_calls :: "'img event list \<Rightarrow> 'img list" where
  "embed_calls [] = []"
| "embed_calls (EmbedCall x # evs) = x # embed_calls evs"
| "embed_calls (_ # evs) = embed_calls evs"

text \<open>The events a run added to the trace it started from.\<close>

definition new_events :: "('s, 'img, 'e) world \<Rightarrow> ('s, 'img, 'e) world \<Rightarrow> 'img event list" where
  "new_events w w' = drop (length (trace w)) (trace w')"

text \<open>The test of the patch loop: the sample's patch source resolves to at least one
  detection.\<close>

definition has_detections ::
  "('s, 'img, 'e, 'bbox) env \<Rightarrow> ('s, 'img, 'e) world \<Rightarrow> sample \<Rightarrow> string \<Rightarrow> bool" where
  "has_detections env w s pf =
     (case parse_patches env w s pf of None \<Rightarrow> False | Some dets \<Rightarrow> dets \<noteq> [])"

text \<open>A model that overrides neither \<open>embed\<close> nor \<open>embed_all\<close>.\<close>

definition uses_defaults :: "('s, 'img, 'e) model \<Rightarrow> bool" where
  "uses_defaults m = (embed_override m = None \<and> embed_all_override m = None)"

text \<open>The results of the successive calls \<open>model.embed_all(xs)\<close> for \<open>xs\<close> in \<open>xss\<close>, each
  call starting from the state the one before left.\<close>

fun embed_all_each ::
  "('s, 'img, 'e) model \<Rightarrow> 'img list list \<Rightarrow> 's \<Rightarrow> (error + 'e ndarray list) \<times> 's" where
  "embed_all_each m [] s = (Inr [], s)"
| "embed_all_each m (xs # xss) s =
     (case embed_all m xs s of
        (Inl e, s1) \<Rightarrow> (Inl e, s1)
      | (Inr a, s1) \<Rightarrow>
          (case embed_all_each m xss s1 of
             (Inl e, s2) \<Rightarrow> (Inl e, s2)
           | (Inr es, s2) \<Rightarrow> (Inr (a # es), s2)))"

section \<open>Example instances\<close>

text \<open>
  A model that overrides nothing: \<open>predict\<close> on the image \<open>n\<close> leaves the embedding
  \<open>[[n, n + 1]]\<close> of shape \<open>(1, 2)\<close> behind, the first axis being the batch size as
  \<open>get_embeddings\<close> documents, and \<open>get_embeddings\<close> returns what the last \<open>predict\<close> left.
\<close>

definition demo_model :: "(nat ndarray option, nat, nat) model" where
  "demo_model =
     \<lparr> is_embeddings_mixin = True,
       is_torch_model_mixin = False,
       has_embeddings = Inr True,
       ragged_batches = Inr False,
       enter_model = (\<lambda>s. s),
       exit_model = (\<lambda>s. s),
       predict = (\<lambda>n s. (Inr (), Some (NdArray [1, 2] [n, n + 1]))),
       get_embeddings = (\<lambda>s. case s of None \<Rightarrow> (Inl ValueError, s) | Some a \<Rightarrow> (Inr a, s)),
       embed_override = None,
       embed_all_override = None \<rparr>"

text \<open>The same model with ragged batches, and one without embeddings.\<close>

definition ragged_model :: "(nat ndarray option, nat, nat) model" where
  "ragged_model = demo_model\<lparr>ragged_batches := Inr True\<rparr>"

definition plain_model :: "(nat ndarray option, nat, nat) model" where
  "plain_model = demo_model\<lparr>has_embeddings := Inr False\<rparr>"

text \<open>A model that overrides \<open>embed_all\<close> and returns the embedding of the first item only,
  an array of one row whatever the number of items.\<close>

definition first_row_model :: "(nat ndarray option, nat, nat) model" where
  "first_row_model =
     demo_model\<lparr>embed_all_override :=
       Some (\<lambda>xs s. (Inr (NdArray [1, 2] [hd xs, hd xs + 1]), s))\<rparr>"

text \<open>Decoding the file at \<open>p\<close> gives the image \<open>length p\<close>; a patch of the image \<open>n\<close> is the
  number \<open>10 * n\<close> plus the first decimal of the box's \<open>x\<close>.\<close>

definition demo_env :: "(nat ndarray option, nat, nat, box) env" where
  "demo_env =
     \<lparr> default_batch_size = None,
       read_image = (\<lambda>p. Inr (length p)),
       open_video = (\<lambda>p. Inr (length p)),
       to_bounding_box = bounding_box,
       pad_relative = spec_pad_relative,
       extract_from = (\<lambda>b n fs. 10 * n + nat \<lfloor>fst b * 10\<rfloor>),
       to_detection = (\<lambda>p. \<lparr>det_label = [], bounding_box = (0, 0, 1, 1)\<rparr>),
       to_detections = map (\<lambda>p. \<lparr>det_label = [], bounding_box = (0, 0, 1, 1)\<rparr>),
       validate_collection_label_fields = (\<lambda>c f. None),
       compute_torch_image_embeddings = (\<lambda>c m ef b w. (Inl NotImplementedError, w)),
       compute_torch_image_patch_embeddings = (\<lambda>c m pf ef b w. (Inl NotImplementedError, w)) \<rparr>"

definition demo_det :: "rat \<Rightarrow> detection" where
  "demo_det x = \<lparr>det_label = ''cat'', bounding_box = (x, 1 / 10, 1 / 5, 1 / 5)\<rparr>"

text \<open>Three samples; the field \<open>gt\<close> holds three detections on the first, an empty
  \<open>Detections\<close> on the second and nothing on the third.\<close>

definition demo_samples :: "sample list" where
  "demo_samples =
     [\<lparr>sid = ''s1'', filepath = ''a''\<rparr>, \<lparr>sid = ''s2'', filepath = ''bb''\<rparr>,
      \<lparr>sid = ''s3'', filepath = ''ccc''\<rparr>]"

definition demo_collection :: collection where
  "demo_collection = \<lparr>media_type = IMAGE, samples = demo_samples\<rparr>"

definition empty_collection :: collection where
  "empty_collection = \<lparr>media_type = IMAGE, samples = []\<rparr>"

definition video_collection :: collection where
  "video_collection = \<lparr>media_type = VIDEO, samples = demo_samples\<rparr>"

definition demo_world :: "(nat ndarray option, nat, nat) world" where
  "demo_world =
     \<lparr> mstate = None,
       store = (\<lambda>i f.
          if f = ''gt'' \<and> i = ''s1''
          then DetectionsVal [demo_det (1 / 10), demo_det (2 / 10), demo_det (3 / 10)]
          else if f = ''gt'' \<and> i = ''s2'' then DetectionsVal []
          else NoneVal),
       trace = [] \<rparr>"

text \<open>A file system on which every call succeeds.\<close>

definition demo_voc_env :: "(unit, unit, unit) voc_env" where
  "demo_voc_env =
     \<lparr> ensure_dir = (\<lambda>d fs. Inr fs),
       load_template = (\<lambda>fs. None),
       copy_file = (\<lambda>src dst fs. Inr fs),
       read_img = (\<lambda>p fs. Inr ()),
       write_annotation = (\<lambda>img lab ip xp fs. Inr fs) \<rparr>"

definition demo_voc_world :: "unit voc_world" where
  "demo_voc_world = \<lparr>files = (), calls = []\<rparr>"

text \<open>An environment with the geometry of the spec, on images that are grids of numbers,
  and the 10 by 10 image whose pixel at row \<open>y\<close>, column \<open>x\<close> is \<open>10 * y + x\<close>.\<close>

definition geometry_env :: "(unit, nat list list, nat, box) env" where
  "geometry_env =
     \<lparr> default_batch_size = None,
       read_image = (\<lambda>p. Inl OSError),
       open_video = (\<lambda>p. Inl OSError),
       to_bounding_box = bounding_box,
       pad_relative = spec_pad_relative,
       extract_from = spec_extract_from,
       to_detection = (\<lambda>p. \<lparr>det_label = [], bounding_box = (0, 0, 1, 1)\<rparr>),
       to_detections = map (\<lambda>p. \<lparr>det_label = [], bounding_box = (0, 0, 1, 1)\<rparr>),
       validate_collection_label_fields = (\<lambda>c f. None),
       compute_torch_image_embeddings = (\<lambda>c m ef b w. (Inl NotImplementedError, w)),
       compute_torch_image_patch_embeddings = (\<lambda>c m pf ef b w. (Inl NotImplementedError, w)) \<rparr>"

definition demo_image :: "nat list list" where
  "demo_image = map (\<lambda>y. map (\<lambda>x. 10 * y + x) [0..<10]) [0..<10]"

section \<open>Observations on the calls of the export\<close>

text \<open>
  The calls a run added; the paths the loop iterates (\<open>zip\<close> stops at the shorter list);
  the annotations written, as (image path, XML path); the copy and the annotation of an
  image under its original name; and the file systems on which no call fails.
\<close>

definition new_calls :: "'fs voc_world \<Rightarrow> 'fs voc_world \<Rightarrow> voc_event list" where
  "new_calls w w' = drop (length (calls w)) (calls w')"

definition io_succeeds :: "('fs, 'img, 'lab) voc_env \<Rightarrow> bool" where
  "io_succeeds env =
     ((\<forall>d fs. \<exists>fs'. ensure_dir env d fs = Inr fs')
      \<and> (\<forall>fs. load_template env fs = None)
      \<and> (\<forall>a b fs. \<exists>fs'. copy_file env a b fs = Inr fs')
      \<and> (\<forall>p fs. \<exists>img. read_img env p fs = Inr img)
      \<and> (\<forall>img l a b fs. \<exists>fs'. write_annotation env img l a b fs = Inr fs'))"

definition iterated_paths :: "string list \<Rightarrow> 'lab list \<Rightarrow> string list" where
  "iterated_paths image_paths labels = map fst (zip image_paths labels)"

fun annotations :: "voc_event list \<Rightarrow> (string \<times> string) list" where
  "annotations [] = []"
| "annotations (WriteAnnotation img_path xml_path # evs) = (img_path, xml_path) # annotations evs"
| "annotations (_ # evs) = annotations evs"

definition original_annotation :: "string \<Rightarrow> string \<Rightarrow> string \<Rightarrow> string \<times> string" where
  "original_annotation data_dir labels_dir img_path =
     (path_join data_dir (basename img_path), path_join labels_dir (stem img_path @ ''.xml''))"

definition original_copy :: "string \<Rightarrow> string \<Rightarrow> string \<times> string" where
  "original_copy data_dir img_path = (img_path, path_join data_dir (basename img_path))"

section \<open>What a run may change\<close>

text \<open>
  \<open>run_ok ef w w' evs\<close>: the run from \<open>w\<close> to \<open>w'\<close> added the events \<open>evs\<close> to the trace;
  with an embeddings field \<open>f\<close> every field it set is \<open>f\<close>, and the samples whose field
  it set are the samples it saved, in the same order; without one it set and saved
  nothing; and no field changed but those the trace says were set.
\<close>

definition run_ok ::
  "string option \<Rightarrow> ('s, 'img, 'e) world \<Rightarrow> ('s, 'img, 'e) world \<Rightarrow> 'img event list \<Rightarrow> bool" where
  "run_ok ef w w' evs =
     (trace w' = trace w @ evs
      \<and> set_fields evs =
          (case truthy_field ef of None \<Rightarrow> [] | Some f \<Rightarrow> map (\<lambda>i. (i, f)) (saved_ids evs))
      \<and> (truthy_field ef = None \<longrightarrow> saved_ids evs = [])
      \<and> (\<forall>i g. (i, g) \<notin> set (set_fields evs) \<longrightarrow> store w' i g = store w i g))"

section \<open>The events of the patch loop\<close>

text \<open>
  The calls that embed the patches of one image; the events of one sample of the patch
  loop whose fields are read in the world \<open>w\<close> (none when its patch source resolves to
  no detection; after the decoding, the calls and, in field mode, the write); and the
  events of the loop over a list of samples.
\<close>

definition patch_calls ::
  "('s, 'img, 'e, 'bbox) env \<Rightarrow> int option \<Rightarrow> bool \<Rightarrow> rat option \<Rightarrow> 'img \<Rightarrow> detection list
     \<Rightarrow> 'img event list" where
  "patch_calls env batch_size fs alpha img dets =
     (case batch_size of
        None \<Rightarrow> map (\<lambda>d. EmbedCall (extract_patch env img d fs alpha)) dets
      | Some b \<Rightarrow>
          map (\<lambda>c. EmbedAllCall (map (\<lambda>d. extract_patch env img d fs alpha) c))
            (iter_batches dets b))"

definition sample_patch_events ::
  "('s, 'img, 'e, 'bbox) env \<Rightarrow> string \<Rightarrow> string option \<Rightarrow> int option \<Rightarrow> bool \<Rightarrow> rat option
     \<Rightarrow> ('s, 'img, 'e) world \<Rightarrow> sample \<Rightarrow> 'img event list" where
  "sample_patch_events env pf ef batch_size fs alpha w s =
     (case parse_patches env w s pf of
        None \<Rightarrow> []
      | Some dets \<Rightarrow>
          if dets = [] then []
          else Decode (filepath s) #
            (case read_image env (filepath s) of
               Inl e \<Rightarrow> []
             | Inr img \<Rightarrow>
                 patch_calls env batch_size fs alpha img dets
                 @ (case truthy_field ef of
                      None \<Rightarrow> []
                    | Some f \<Rightarrow> [SetField (sid s) f, Save (sid s)])))"

definition patch_events ::
  "('s, 'img, 'e, 'bbox) env \<Rightarrow> string \<Rightarrow> string option \<Rightarrow> int option \<Rightarrow> bool \<Rightarrow> rat option
     \<Rightarrow> ('s, 'img, 'e) world \<Rightarrow> sample list \<Rightarrow> 'img event list" where
  "patch_events env pf ef batch_size fs alpha w ss =
     concat (map (sample_patch_events env pf ef batch_size fs alpha w) ss)"

section \<open>Statements about the field mode and about batches of patches\<close>


text \<open>
  The writes and saves of a sequence of events, in order; and the events of setting the
  field \<open>f\<close> of each sample of a list and saving that sample at once, one sample after
  the other.
\<close>

fun writes :: "'img event list \<Rightarrow> 'img event list" where
  "writes [] = []"
| "writes (SetField i f # evs) = SetField i f # writes evs"
| "writes (Save i # evs) = Save i # writes evs"
| "writes (_ # evs) = writes evs"

definition write_and_save :: "string \<Rightarrow> sample list \<Rightarrow> 'img event list" where
  "write_and_save f ss = concat (map (\<lambda>s. [SetField (sid s) f, Save (sid s)]) ss)"

text \<open>
  \<open>field_run f ps w w'\<close>: the run from \<open>w\<close> to \<open>w'\<close> only added to the trace, and its writes
  and saves are exactly one write of the field \<open>f\<close> followed by one save for each sample
  of \<open>ps\<close>, in the order of \<open>ps\<close>; no other field of any sample, and no field of a sample
  outside \<open>ps\<close>, changed; and the field \<open>f\<close> of each sample of \<open>ps\<close> holds an array.
\<close>

definition field_run ::
  "string \<Rightarrow> sample list \<Rightarrow> ('s, 'img, 'e) world \<Rightarrow> ('s, 'img, 'e) world \<Rightarrow> bool" where
  "field_run f ps w w' =
     (trace w' = trace w @ new_events w w'
      \<and> writes (new_events w w') = write_and_save f ps
      \<and> (\<forall>i g. g \<noteq> f \<or> i \<notin> sid ` set ps \<longrightarrow> store w' i g = store w i g)
      \<and> (\<forall>i \<in> sid ` set ps. \<exists>v. store w' i f = ArrayVal v))"

text \<open>
  The first \<open>n\<close> samples of each batch, batch after batch, for the numbers \<open>n\<close> of a list
  \<open>ns\<close>; a batch for which \<open>ns\<close> has no number contributes nothing. This is what the loop
  \<open>zip(sample_batch, embeddings_batch)\<close> reaches when the results have these numbers of
  rows.
\<close>

definition batch_prefixes :: "nat list \<Rightarrow> 'a list list \<Rightarrow> 'a list" where
  "batch_prefixes ns bss = concat (map (\<lambda>(n, sb). take n sb) (zip ns bss))"

text \<open>
  A model whose \<open>embed_all\<close>, when it returns an array that can be iterated, returns at
  least one row per input: the loop \<open>zip(sample_batch, embeddings_batch)\<close> of the batched
  path then reaches every sample of the batch.
\<close>

definition row_per_input :: "('s, 'img, 'e) model \<Rightarrow> bool" where
  "row_per_input m =
     (\<forall>xs s a s' rs. embed_all m xs s = (Inr a, s') \<and> rows a = Inr rs
        \<longrightarrow> length xs \<le> length rs)"

section \<open>Batch-size negotiation: the policy\<close>

text \<open>
  C2, as amended. (i) With no requested size the default takes its place. (ii) A size
  above 1 on a model that declares ragged batches gives "no batching", with a warning
  as the only effect and no exception. (iii) Otherwise the size is returned unchanged,
  and nothing else happens; a model whose \<open>ragged_batches\<close> raises passes the exception
  on when the size is above 1. A concrete size that is returned is the resolved size
  itself, so it is at least 1 exactly when the resolved size was: nothing in the
  function checks it.
\<close>

theorem parse_batch_size_policy:
  "parse_batch_size dflt None m w =
     (case dflt of None \<Rightarrow> (Inr None, w) | Some d \<Rightarrow> parse_batch_size dflt (Some d) m w)
   \<and> (1 < b \<and> ragged_batches m = Inr True \<longrightarrow>
        parse_batch_size dflt (Some b) m w = (Inr None, emit Warning w))
   \<and> (b \<le> 1 \<or> ragged_batches m = Inr False \<longrightarrow>
        parse_batch_size dflt (Some b) m w = (Inr (Some b), w))
   \<and> (1 < b \<and> ragged_batches m = Inl e \<longrightarrow>
        parse_batch_size dflt (Some b) m w = (Inl e, w))
   \<and> (parse_batch_size dflt r m w = (Inr (Some k), w') \<longrightarrow>
        (case r of None \<Rightarrow> dflt | Some n \<Rightarrow> Some n) = Some k \<and> w' = w)
   \<and> (parse_batch_size dflt r m w = (Inr (Some k), w')
        \<and> (case r of None \<Rightarrow> dflt | Some n \<Rightarrow> Some n) = Some n \<and> 1 \<le> n \<longrightarrow> 1 \<le> k)"
proof -
  have 1: "parse_batch_size dflt None m w =
     (case dflt of None \<Rightarrow> (Inr None, w) | Some d \<Rightarrow> parse_batch_size dflt (Some d) m w)"
    by (simp add: parse_batch_size_def split: option.splits)
  have 2: "1 < b \<and> ragged_batches m = Inr True \<longrightarrow>
        parse_batch_size dflt (Some b) m w = (Inr None, emit Warning w)"
    by (simp add: parse_batch_size_def)
  have 3: "b \<le> 1 \<or> ragged_batches m = Inr False \<longrightarrow>
        parse_batch_size dflt (Some b) m w = (Inr (Some b), w)"
    by (auto simp add: parse_batch_size_def)
  have 4: "1 < b \<and> ragged_batches m = Inl e \<longrightarrow>
        parse_batch_size dflt (Some b) m w = (Inl e, w)"
    by (simp add: parse_batch_size_def)
  have 5: "parse_batch_size dflt r m w = (Inr (Some k), w') \<longrightarrow>
        (case r of None \<Rightarrow> dflt | Some n \<Rightarrow> Some n) = Some k \<and> w' = w"
    by (simp add: parse_batch_size_def Let_def
          split: option.splits sum.splits bool.splits if_splits)
  from 5 have 6: "parse_batch_size dflt r m w = (Inr (Some k), w')
        \<and> (case r of None \<Rightarrow> dflt | Some n \<Rightarrow> Some n) = Some n \<and> 1 \<le> n \<longrightarrow> 1 \<le> k"
    by auto
  from 1 2 3 4 5 6 show ?thesis by blast
qed

theorem parse_batch_size_policy_witness:
  "parse_batch_size None (Some 4) ragged_model demo_world = (Inr None, emit Warning demo_world)
   \<and> parse_batch_size None (Some 4) demo_model demo_world = (Inr (Some 4), demo_world)
   \<and> parse_batch_size None (Some 1) ragged_model demo_world = (Inr (Some 1), demo_world)"
proof -
  have rag: "ragged_batches ragged_model = Inr True"
    by (simp add: ragged_model_def)
  have nrag: "ragged_batches demo_model = Inr False"
    by (simp add: demo_model_def)
  have a: "parse_batch_size None (Some 4) ragged_model demo_world
             = (Inr None, emit Warning demo_world)"
    using parse_batch_size_policy [THEN conjunct2, THEN conjunct1, rule_format,
            of 4 ragged_model None demo_world] rag
    by simp
  have b: "parse_batch_size None (Some 4) demo_model demo_world = (Inr (Some 4), demo_world)"
    using parse_batch_size_policy [THEN conjunct2, THEN conjunct2, THEN conjunct1, rule_format,
            of 4 demo_model None demo_world] nrag
    by simp
  have c: "parse_batch_size None (Some 1) ragged_model demo_world = (Inr (Some 1), demo_world)"
    using parse_batch_size_policy [THEN conjunct2, THEN conjunct2, THEN conjunct1, rule_format,
            of 1 ragged_model None demo_world]
    by simp
  from a b c show ?thesis by simp
qed

text \<open>C2 as stated fails: the requested size 0 comes back as 0, which is neither "no
  batching" nor a size of at least 1.\<close>

theorem parse_batch_size_below_one_counterexample:
  "fst (parse_batch_size None (Some 0) demo_model demo_world) = Inr (Some 0) \<and> \<not> (1::int) \<le> 0"
  by (simp add: parse_batch_size_def)

section \<open>Capability and media type are checked first\<close>

text \<open>
  C4. A model that is not an \<open>EmbeddingsMixin\<close>, or whose \<open>has_embeddings\<close> is \<open>False\<close>,
  makes \<open>compute_embeddings\<close> and \<open>compute_patch_embeddings\<close> raise \<open>ValueError\<close>, and so
  does a collection that is not of images for \<open>compute_patch_embeddings\<close>; the world
  is returned as it was: no sample was iterated, no media decoded, no field written,
  no model method called.
\<close>

theorem capability_mismatch_fails_fast:
  "(\<not> is_embeddings_mixin m \<or> has_embeddings m = Inr False \<longrightarrow>
      compute_embeddings env coll m ef bs w = (Inl ValueError, w))
   \<and> (media_type coll \<noteq> IMAGE \<or> \<not> is_embeddings_mixin m \<or> has_embeddings m = Inr False \<longrightarrow>
      compute_patch_embeddings env coll m pf ef bs fs alpha w = (Inl ValueError, w))"
  by (auto simp add: compute_embeddings_def compute_patch_embeddings_def)

theorem capability_mismatch_fails_fast_witness:
  "compute_embeddings demo_env demo_collection plain_model None None demo_world
     = (Inl ValueError, demo_world)
   \<and> compute_patch_embeddings demo_env video_collection demo_model ''gt'' (Some ''emb'') None
       False None demo_world = (Inl ValueError, demo_world)"
proof -
  have p: "has_embeddings plain_model = Inr False"
    by (simp add: plain_model_def)
  have v: "media_type video_collection \<noteq> IMAGE"
    by (simp add: video_collection_def)
  have a: "compute_embeddings demo_env demo_collection plain_model None None demo_world
             = (Inl ValueError, demo_world)"
    using capability_mismatch_fails_fast [THEN conjunct1, rule_format,
            of plain_model demo_env demo_collection None None demo_world] p
    by simp
  have b: "compute_patch_embeddings demo_env video_collection demo_model ''gt'' (Some ''emb'')
             None False None demo_world = (Inl ValueError, demo_world)"
    using capability_mismatch_fails_fast [THEN conjunct2, rule_format,
            of video_collection demo_model demo_env "''gt''" "Some ''emb''" None False None
               demo_world] v
    by simp
  from a b show ?thesis by simp
qed

section \<open>The default \<open>embed\<close> and \<open>embed_all\<close>\<close>

lemma embed_each_length:
  "embed_each m args s = (Inr es, s') \<Longrightarrow> length es = length args"
proof (induction args arbitrary: s es)
  case Nil
  then show ?case by simp
next
  case (Cons x xs)
  then show ?case
    by (auto split: prod.splits sum.splits)
qed

lemma take_drop_concat_nth:
  "\<forall>e \<in> set es. length (f e) = P \<Longrightarrow> i < length es
     \<Longrightarrow> take P (drop (i * P) (concat (map f es))) = f (es ! i)"
proof (induction es arbitrary: i)
  case Nil
  then show ?case by simp
next
  case (Cons e es)
  show ?case
  proof (cases i)
    case 0
    with Cons.prems show ?thesis by simp
  next
    case (Suc j)
    with Cons.prems have "take P (drop (j * P) (concat (map f es))) = f (es ! j)"
      by (intro Cons.IH) auto
    with Suc Cons.prems show ?thesis by (simp add: add.commute)
  qed
qed

lemma rows_stack:
  assumes "list_all (\<lambda>e. shape e = sh \<and> wf_array e) es"
  shows "rows (NdArray (length es # sh) (concat (map data es))) = Inr es"
proof -
  let ?a = "NdArray (length es # sh) (concat (map data es))"
  from assms have len: "\<forall>e \<in> set es. length (data e) = prod_list sh"
    and sh: "\<forall>e \<in> set es. shape e = sh"
    by (auto simp add: list_all_iff wf_array_def)
  have "map (row ?a) [0..<length es] = es"
  proof (rule nth_equalityI)
    show "length (map (row ?a) [0..<length es]) = length es" by simp
  next
    fix i assume "i < length (map (row ?a) [0..<length es])"
    then have i: "i < length es" by simp
    from take_drop_concat_nth [OF len i]
    have "row ?a i = NdArray sh (data (es ! i))"
      by (simp add: row_def)
    also from sh i have "\<dots> = es ! i"
      by (metis ndarray.collapse nth_mem)
    finally show "map (row ?a) [0..<length es] ! i = es ! i"
      using i by simp
  qed
  then show ?thesis by (simp add: rows_def)
qed

lemma np_stack_Inr:
  "np_stack es = Inr a \<Longrightarrow>
     es \<noteq> [] \<and> a = NdArray (length es # shape (hd es)) (concat (map data es))
     \<and> list_all (\<lambda>b. shape b = shape (hd es)) es"
  by (auto simp add: np_stack_def split: list.splits if_splits)

lemma embed_each_deterministic:
  "(\<And>x t. embed m x t = (Inr (f x), g x t))
     \<Longrightarrow> embed_each m args s = (Inr (map f args), fold g args s)"
  by (induction args arbitrary: s) auto

text \<open>
  C6. For a model that overrides neither method, \<open>embed(arg)\<close> is \<open>predict(arg)\<close>, whose
  label is dropped, followed by \<open>get_embeddings()\<close>; and \<open>embed_all(args)\<close> is \<open>np.stack\<close>
  of the results of \<open>embed\<close> on the items in order. When it returns, there is one
  result per item, the array has a new leading axis of that length over the common
  shape of the results, its elements are theirs in input order, and (for results whose
  data fit their shape) its rows are exactly the per-item results. When \<open>embed\<close> gives
  \<open>f x\<close> on \<open>x\<close> whatever the state, the per-item results are \<open>map f args\<close>.
\<close>

theorem default_embed_and_embed_all:
  "uses_defaults m \<Longrightarrow>
     embed m arg s =
       (case predict m arg s of (Inl e, s1) \<Rightarrow> (Inl e, s1) | (Inr u, s1) \<Rightarrow> get_embeddings m s1)
     \<and> embed_all m args s =
       (case embed_each m args s of (Inl e, s1) \<Rightarrow> (Inl e, s1) | (Inr es, s1) \<Rightarrow> (np_stack es, s1))
     \<and> (embed_all m args s = (Inr a, s') \<longrightarrow>
          (\<exists>es. embed_each m args s = (Inr es, s') \<and> length es = length args \<and> args \<noteq> []
             \<and> shape a = length args # shape (hd es) \<and> data a = concat (map data es)
             \<and> (list_all wf_array es \<longrightarrow> rows a = Inr es)))
     \<and> ((\<forall>x t. embed m x t = (Inr (f x), g x t)) \<longrightarrow>
          embed_each m args s = (Inr (map f args), fold g args s))"
proof -
  assume ud: "uses_defaults m"
  have 1: "embed m arg s =
       (case predict m arg s of (Inl e, s1) \<Rightarrow> (Inl e, s1) | (Inr u, s1) \<Rightarrow> get_embeddings m s1)"
    using ud by (simp add: uses_defaults_def embed_def EmbeddingsMixin_embed_def)
  have 2: "embed_all m args s =
       (case embed_each m args s of (Inl e, s1) \<Rightarrow> (Inl e, s1) | (Inr es, s1) \<Rightarrow> (np_stack es, s1))"
    using ud by (simp add: uses_defaults_def embed_all_def EmbeddingsMixin_embed_all_def)
  have 3: "embed_all m args s = (Inr a, s') \<longrightarrow>
          (\<exists>es. embed_each m args s = (Inr es, s') \<and> length es = length args \<and> args \<noteq> []
             \<and> shape a = length args # shape (hd es) \<and> data a = concat (map data es)
             \<and> (list_all wf_array es \<longrightarrow> rows a = Inr es))"
  proof
    assume ok: "embed_all m args s = (Inr a, s')"
    with 2 obtain es where es: "embed_each m args s = (Inr es, s')" and st: "np_stack es = Inr a"
      by (auto split: prod.splits sum.splits)
    from es have len: "length es = length args" by (rule embed_each_length)
    from np_stack_Inr [OF st] have ne: "es \<noteq> []"
      and a: "a = NdArray (length es # shape (hd es)) (concat (map data es))"
      and same: "list_all (\<lambda>b. shape b = shape (hd es)) es"
      by auto
    have "list_all wf_array es \<longrightarrow> rows a = Inr es"
    proof
      assume "list_all wf_array es"
      with same have "list_all (\<lambda>e. shape e = shape (hd es) \<and> wf_array e) es"
        by (simp add: list_all_iff)
      from rows_stack [OF this] a show "rows a = Inr es" by simp
    qed
    with es len ne a show "\<exists>es. embed_each m args s = (Inr es, s') \<and> length es = length args
        \<and> args \<noteq> [] \<and> shape a = length args # shape (hd es) \<and> data a = concat (map data es)
        \<and> (list_all wf_array es \<longrightarrow> rows a = Inr es)"
      by auto
  qed
  have 4: "(\<forall>x t. embed m x t = (Inr (f x), g x t)) \<longrightarrow>
          embed_each m args s = (Inr (map f args), fold g args s)"
    using embed_each_deterministic [of m f g args s] by blast
  from 1 2 3 4 show ?thesis by blast
qed

lemma demo_uses_defaults: "uses_defaults demo_model"
  by (simp add: uses_defaults_def demo_model_def)

theorem default_embed_and_embed_all_witness:
  "uses_defaults demo_model
   \<and> embed demo_model 5 None = (Inr (NdArray [1, 2] [5, 6]), Some (NdArray [1, 2] [5, 6]))
   \<and> embed_all demo_model [5, 7] None
       = (Inr (NdArray [2, 1, 2] [5, 6, 7, 8]), Some (NdArray [1, 2] [7, 8]))"
proof -
  note t = default_embed_and_embed_all [OF demo_uses_defaults]
  have e: "embed demo_model x s
             = (Inr (NdArray [1, 2] [x, x + 1]), Some (NdArray [1, 2] [x, x + 1]))" for x s
    by (subst t [THEN conjunct1]) (simp add: demo_model_def)
  have b: "embed_all demo_model [5, 7] None
       = (Inr (NdArray [2, 1, 2] [5, 6, 7, 8]), Some (NdArray [1, 2] [7, 8]))"
    by (subst t [THEN conjunct2, THEN conjunct1]) (simp add: e np_stack_def)
  from e [of 5 None] b demo_uses_defaults show ?thesis by simp
qed

section \<open>Patch extraction without padding\<close>

lemma pad_relative_zero:
  "valid_box b \<Longrightarrow> spec_pad_relative b 0 = b"
  by (cases b) (auto simp add: valid_box_def spec_pad_relative_def clamp01_def Let_def
        min_def max_def)

text \<open>
  C8, on the geometry modelled from the spec. For a detection whose normalized box
  lies in the unit square, the patch extracted with \<open>alpha\<close> absent is the crop of the
  image at the pixel box of the detection's own box, and \<open>alpha = 0\<close> extracts the same
  patch. The box \<open>[0.1, 0.1, 0.2, 0.2]\<close> in a 100 by 100 image has the pixel box
  \<open>[10, 10, 20, 20]\<close>.
\<close>

theorem extract_patch_round_trip:
  "spec_geometry env \<Longrightarrow> valid_box (bounding_box d) \<Longrightarrow>
     extract_patch env img d False None
       = crop img (pixel_box (bounding_box d) (img_width img) (img_height img))
     \<and> extract_patch env img d False (Some 0) = extract_patch env img d False None
     \<and> pixel_box (1 / 10, 1 / 10, 1 / 5, 1 / 5) 100 100 = (10, 10, 20, 20)"
  by (simp add: spec_geometry_def extract_patch_def spec_extract_from_def pad_relative_zero
        pixel_box_def)

theorem extract_patch_round_trip_witness:
  "spec_geometry geometry_env \<and> valid_box (bounding_box (demo_det (1 / 10)))
   \<and> extract_patch geometry_env demo_image (demo_det (1 / 10)) False (Some 0)
       = [[11, 12], [21, 22]]"
proof -
  have g: "spec_geometry geometry_env"
    by (simp add: spec_geometry_def geometry_env_def)
  have v: "valid_box (bounding_box (demo_det (1 / 10)))"
    by (simp add: valid_box_def demo_det_def)
  note t = extract_patch_round_trip [OF g v, of demo_image]
  have "crop demo_image (pixel_box (bounding_box (demo_det (1 / 10))) (img_width demo_image)
          (img_height demo_image)) = [[11, 12], [21, 22]]"
    by code_simp
  with t g v show ?thesis by simp
qed

section \<open>Batched and unbatched embeddings of a model with the default methods\<close>

text \<open>
  C1 fails on the code for the model of \<open>demo_model\<close>, whose \<open>embed_all\<close> is the default
  and so is \<open>embed\<close> item by item: the unbatched path writes \<open>embedding[0]\<close>, of shape
  \<open>(2)\<close>, to the field and returns an array of shape \<open>(3, 2)\<close>; the batched path writes
  the row of the stacked batch, of shape \<open>(1, 2)\<close>, and returns shape \<open>(3, 1, 2)\<close>.
\<close>

theorem batched_differs_from_single:
  "store (snd (compute_embeddings demo_env demo_collection demo_model (Some ''emb'') None
                 demo_world)) ''s1'' ''emb'' = ArrayVal (NdArray [2] [1, 2])
   \<and> store (snd (compute_embeddings demo_env demo_collection demo_model (Some ''emb'') (Some 2)
                   demo_world)) ''s1'' ''emb'' = ArrayVal (NdArray [1, 2] [1, 2])
   \<and> fst (compute_embeddings demo_env demo_collection demo_model None None demo_world)
       = Inr (Some (NdArray [3, 2] [1, 2, 2, 3, 3, 4]))
   \<and> fst (compute_embeddings demo_env demo_collection demo_model None (Some 2) demo_world)
       = Inr (Some (NdArray [3, 1, 2] [1, 2, 2, 3, 3, 4]))"
  by code_simp

section \<open>\<open>compute_embeddings\<close> on an empty collection\<close>

text \<open>
  C3 fails on the code for the empty collection: with no \<open>embeddings_field\<close>, both the
  unbatched and the batched path end in \<open>np.concatenate([])\<close>, which raises
  \<open>ValueError\<close>, where the docstring promises an array whose first dimension is
  \<open>len(samples)\<close>.
\<close>

theorem empty_collection_raises:
  "fst (compute_embeddings demo_env empty_collection demo_model None None demo_world)
     = Inl ValueError
   \<and> fst (compute_embeddings demo_env empty_collection demo_model None (Some 2) demo_world)
       = Inl ValueError"
  by code_simp

section \<open>The export never renames\<close>

lemma splitext_concat: "splitext b = (n, e) \<Longrightarrow> n @ e = b"
proof -
  assume h: "splitext b = (n, e)"
  show ?thesis
  proof (cases "CHR ''.'' \<in> set b")
    case False
    with h show ?thesis by (simp add: splitext_def)
  next
    case True
    let ?P = "\<lambda>c. c \<noteq> CHR ''.''"
    from True have "dropWhile ?P (rev b) \<noteq> []" by (simp add: dropWhile_eq_Nil_conv)
    moreover have "hd (dropWhile ?P (rev b)) = CHR ''.''"
      using calculation hd_dropWhile [of ?P "rev b"] by blast
    ultimately have dw: "dropWhile ?P (rev b) = CHR ''.'' # tl (dropWhile ?P (rev b))"
      by (metis list.collapse)
    have "rev (tl (dropWhile ?P (rev b))) @ CHR ''.'' # rev (takeWhile ?P (rev b))
            = rev (takeWhile ?P (rev b) @ CHR ''.'' # tl (dropWhile ?P (rev b)))"
      by simp
    also have "\<dots> = rev (takeWhile ?P (rev b) @ dropWhile ?P (rev b))"
      using dw by simp
    also have "\<dots> = b" by simp
    finally have "rev (tl (dropWhile ?P (rev b))) @ CHR ''.'' # rev (takeWhile ?P (rev b)) = b" .
    with h True show ?thesis
      by (auto simp add: splitext_def Let_def split: if_splits)
  qed
qed

lemma dedup_name_eq: "dedup_name name c = (if 1 < c then Inl TypeError else Inr name)"
  by (simp add: dedup_name_def)

lemma copies_append: "copies (xs @ ys) = copies xs @ copies ys"
  by (induction xs rule: copies.induct) auto

lemma annotations_append: "annotations (xs @ ys) = annotations xs @ annotations ys"
  by (induction xs rule: annotations.induct) auto

lemma export_one_calls:
  "export_one env p l out xml w = (r, w')
     \<Longrightarrow> \<exists>evs. calls w' = calls w @ evs \<and> copies evs = [(p, out)]
           \<and> (annotations evs = [] \<or> annotations evs = [(out, xml)])
           \<and> (r = Inr () \<longrightarrow> annotations evs = [(out, xml)])"
  by (auto simp add: export_one_def voc_emit_def split: sum.splits)

lemma export_one_succeeds:
  "io_succeeds env \<Longrightarrow> \<exists>w'. export_one env p l out xml w = (Inr (), w')"
proof -
  assume io: "io_succeeds env"
  then obtain fs1 where 1: "copy_file env p out (files w) = Inr fs1"
    unfolding io_succeeds_def by metis
  from io obtain img where 2: "read_img env p fs1 = Inr img"
    unfolding io_succeeds_def by metis
  from io obtain fs2 where 3: "write_annotation env img l out xml fs1 = Inr fs2"
    unfolding io_succeeds_def by metis
  from 1 2 3 show ?thesis by (simp add: export_one_def)
qed

lemma export_loop_copies:
  "export_loop env dd ld ps counts w = (r, w')
     \<Longrightarrow> \<exists>k j evs. calls w' = calls w @ evs
           \<and> copies evs = map (original_copy dd) (take k (map fst ps))
           \<and> annotations evs = map (original_annotation dd ld) (take j (map fst ps))
           \<and> (r = Inr () \<longrightarrow> length ps \<le> k \<and> length ps \<le> j)"
proof (induction ps arbitrary: counts w)
  case Nil
  then show ?case by auto
next
  case (Cons pl ps)
  obtain p l where pl: "pl = (p, l)" by (cases pl)
  obtain name ext where se: "splitext (basename p) = (name, ext)" by (cases "splitext (basename p)")
  then have ne: "name @ ext = basename p" by (rule splitext_concat)
  from se have st: "stem p = name" by (simp add: stem_def)
  let ?counts = "counts(name := counts name + 1)"
  show ?case
  proof (cases "1 < counts name + 1")
    case True
    with Cons.prems pl se have "r = Inl TypeError" "w' = w"
      by (auto simp add: dedup_name_eq)
    then show ?thesis by (intro exI [of _ 0] exI [of _ "[]"]) simp
  next
    case False
    obtain r1 w1 where eo: "export_one env p l (path_join dd (basename p))
        (path_join ld (name @ ''.xml'')) w = (r1, w1)"
      by (cases "export_one env p l (path_join dd (basename p)) (path_join ld (name @ ''.xml'')) w")
    from export_one_calls [OF eo] obtain evs1 where
      evs1: "calls w1 = calls w @ evs1" "copies evs1 = [(p, path_join dd (basename p))]"
        "annotations evs1 = [] \<or> annotations evs1
            = [(path_join dd (basename p), path_join ld (name @ ''.xml''))]"
        "r1 = Inr () \<longrightarrow> annotations evs1
            = [(path_join dd (basename p), path_join ld (name @ ''.xml''))]"
      by blast
    show ?thesis
    proof (cases r1)
      case (Inl e)
      with Cons.prems pl se False eo ne have res: "r = Inl e" "w' = w1"
        by (auto simp add: dedup_name_eq)
      from evs1(3) show ?thesis
      proof
        assume "annotations evs1 = []"
        with evs1 pl res show ?thesis
          by (intro exI [of _ 1] exI [of _ 0] exI [of _ evs1]) (simp add: original_copy_def)
      next
        assume "annotations evs1 = [(path_join dd (basename p), path_join ld (name @ ''.xml''))]"
        with evs1 pl res st show ?thesis
          by (intro exI [of _ 1] exI [of _ 1] exI [of _ evs1])
             (simp add: original_copy_def original_annotation_def)
      qed
    next
      case (Inr u)
      with Cons.prems pl se False eo ne
      have "export_loop env dd ld ps ?counts w1 = (r, w')"
        by (auto simp add: dedup_name_eq)
      from Cons.IH [OF this] obtain k j evs where
        k: "calls w' = calls w1 @ evs"
           "copies evs = map (original_copy dd) (take k (map fst ps))"
           "annotations evs = map (original_annotation dd ld) (take j (map fst ps))"
           "r = Inr () \<longrightarrow> length ps \<le> k \<and> length ps \<le> j"
        by blast
      from Inr evs1(4) have "annotations evs1
            = [(path_join dd (basename p), path_join ld (name @ ''.xml''))]" by simp
      with k evs1 pl st show ?thesis
        by (intro exI [of _ "Suc k"] exI [of _ "Suc j"] exI [of _ "evs1 @ evs"])
           (simp add: original_copy_def original_annotation_def copies_append annotations_append)
    qed
  qed
qed

lemma export_loop_success_distinct:
  "export_loop env dd ld ps counts w = (Inr u, w') \<Longrightarrow> \<forall>n. 0 \<le> counts n
     \<Longrightarrow> distinct (map (\<lambda>pl. stem (fst pl)) ps) \<and> (\<forall>pl \<in> set ps. counts (stem (fst pl)) \<le> 0)"
proof (induction ps arbitrary: counts w)
  case Nil
  then show ?case by simp
next
  case (Cons pl ps)
  obtain p l where pl: "pl = (p, l)" by (cases pl)
  obtain name ext where se: "splitext (basename p) = (name, ext)" by (cases "splitext (basename p)")
  then have st: "stem p = name" by (simp add: stem_def)
  let ?counts = "counts(name := counts name + 1)"
  from Cons.prems(1) pl se have small: "\<not> 1 < counts name + 1"
    by (auto simp add: dedup_name_eq split: if_splits)
  with Cons.prems(1) pl se obtain w1 where
    rest: "export_loop env dd ld ps ?counts w1 = (Inr u, w')"
    by (auto simp add: dedup_name_eq split: prod.splits sum.splits)
  from Cons.prems(2) have nonneg: "\<forall>n. 0 \<le> ?counts n" by simp
  from Cons.IH [OF rest nonneg]
  have d: "distinct (map (\<lambda>pl. stem (fst pl)) ps)"
    and c: "\<forall>pl \<in> set ps. ?counts (stem (fst pl)) \<le> 0"
    by auto
  from Cons.prems(2) have "0 \<le> counts name" by blast
  with c have notin: "\<forall>pl \<in> set ps. stem (fst pl) \<noteq> name"
    by (auto split: if_splits)
  with c have c': "\<forall>pl \<in> set ps. counts (stem (fst pl)) \<le> 0"
    by (auto split: if_splits)
  from small d notin c' pl st show ?case by auto
qed

lemma export_loop_append:
  "export_loop env dd ld (xs @ ys) counts w =
     (case export_loop env dd ld xs counts w of
        (Inl e, w1) \<Rightarrow> (Inl e, w1)
      | (Inr u, w1) \<Rightarrow>
          export_loop env dd ld ys
            (\<lambda>n. counts n + int (count_list (map (\<lambda>pl. stem (fst pl)) xs) n)) w1)"
proof (induction xs arbitrary: counts w)
  case Nil
  then show ?case by simp
next
  case (Cons pl xs)
  obtain p l where pl: "pl = (p, l)" by (cases pl)
  obtain name ext where se: "splitext (basename p) = (name, ext)" by (cases "splitext (basename p)")
  then have st: "stem p = name" by (simp add: stem_def)
  define counts' where "counts' = counts(name := counts name + 1)"
  have fn: "(\<lambda>n. counts' n + int (count_list (map (\<lambda>pl. stem (fst pl)) xs) n))
          = (\<lambda>n. counts n + int (count_list (map (\<lambda>pl. stem (fst pl)) (pl # xs)) n))"
    using pl st by (auto simp add: fun_eq_iff counts'_def)
  have step: "export_loop env dd ld ((p, l) # zs) counts w =
      (case dedup_name name (counts' name) of
         Inl e \<Rightarrow> (Inl e, w)
       | Inr nm \<Rightarrow>
           (case export_one env p l (path_join dd (nm @ ext)) (path_join ld (nm @ ''.xml'')) w of
              (Inl e, w1) \<Rightarrow> (Inl e, w1)
            | (Inr _, w1) \<Rightarrow> export_loop env dd ld zs counts' w1))" for zs
    unfolding counts'_def by (simp add: se)
  show ?case
  proof (cases "dedup_name name (counts' name)")
    case (Inl e)
    then show ?thesis
      unfolding pl append_Cons step by simp
  next
    case (Inr nm)
    obtain r1 w1 where eo: "export_one env p l (path_join dd (nm @ ext))
        (path_join ld (nm @ ''.xml'')) w = (r1, w1)"
      by (cases "export_one env p l (path_join dd (nm @ ext)) (path_join ld (nm @ ''.xml'')) w")
    show ?thesis
    proof (cases r1)
      case (Inl e)
      with Inr eo show ?thesis
        unfolding pl append_Cons step by simp
    next
      case r1: (Inr u)
      have "export_loop env dd ld ((p, l) # xs @ ys) counts w
              = export_loop env dd ld (xs @ ys) counts' w1"
        unfolding step using Inr eo r1 by simp
      also have "\<dots> = (case export_loop env dd ld xs counts' w1 of
            (Inl e, w2) \<Rightarrow> (Inl e, w2)
          | (Inr u, w2) \<Rightarrow>
              export_loop env dd ld ys
                (\<lambda>n. counts' n + int (count_list (map (\<lambda>pl. stem (fst pl)) xs) n)) w2)"
        by (rule Cons.IH)
      also have "\<dots> = (case export_loop env dd ld xs counts' w1 of
            (Inl e, w2) \<Rightarrow> (Inl e, w2)
          | (Inr u, w2) \<Rightarrow>
              export_loop env dd ld ys
                (\<lambda>n. counts n + int (count_list (map (\<lambda>pl. stem (fst pl)) (pl # xs)) n)) w2)"
        by (simp only: fn)
      also have "export_loop env dd ld xs counts' w1 = export_loop env dd ld (pl # xs) counts w"
        unfolding pl step using Inr eo r1 by simp
      finally show ?thesis by (simp only: pl append_Cons)
    qed
  qed
qed

lemma export_loop_second_occurrence:
  assumes "export_loop env dd ld pre (\<lambda>_. 0) w = (Inr u, w1)"
    and "stem p \<in> set (map (\<lambda>pl. stem (fst pl)) pre)"
  shows "export_loop env dd ld (pre @ (p, l) # post) (\<lambda>_. 0) w = (Inl TypeError, w1)"
proof -
  obtain name ext where se: "splitext (basename p) = (name, ext)" by (cases "splitext (basename p)")
  then have st: "stem p = name" by (simp add: stem_def)
  from assms(2) st have "name \<in> set (map (\<lambda>pl. stem (fst pl)) pre)" by simp
  then have "count_list (map (\<lambda>pl. stem (fst pl)) pre) name \<noteq> 0"
    by (simp only: count_list_0_iff not_not)
  then have "0 < count_list (map (\<lambda>pl. stem (fst pl)) pre) name" by simp
  then have "1 < 0 + int (count_list (map (\<lambda>pl. stem (fst pl)) pre) name) + 1" by simp
  with assms(1) se show ?thesis
    by (simp add: export_loop_append dedup_name_eq)
qed

lemma export_loop_succeeds:
  "io_succeeds env \<Longrightarrow> distinct (map (\<lambda>pl. stem (fst pl)) ps)
     \<Longrightarrow> \<forall>pl \<in> set ps. counts (stem (fst pl)) = 0
     \<Longrightarrow> \<exists>w'. export_loop env dd ld ps counts w = (Inr (), w')"
proof (induction ps arbitrary: counts w)
  case Nil
  then show ?case by simp
next
  case (Cons pl ps)
  obtain p l where pl: "pl = (p, l)" by (cases pl)
  obtain name ext where se: "splitext (basename p) = (name, ext)" by (cases "splitext (basename p)")
  then have st: "stem p = name" by (simp add: stem_def)
  define counts' where "counts' = counts(name := counts name + 1)"
  from Cons.prems(3) pl st have c0: "counts name = 0" by simp
  then have d0: "dedup_name name (counts' name) = Inr name"
    by (simp add: dedup_name_eq counts'_def)
  from export_one_succeeds [OF Cons.prems(1)] obtain w1 where
    eo: "export_one env p l (path_join dd (name @ ext)) (path_join ld (name @ ''.xml'')) w
           = (Inr (), w1)" by blast
  from Cons.prems(2) pl st have "\<forall>q \<in> set ps. stem (fst q) \<noteq> name"
    by (auto simp add: image_iff)
  with Cons.prems(3) have q0: "\<forall>q \<in> set ps. counts' (stem (fst q)) = 0"
    by (simp add: counts'_def)
  from Cons.prems(2) have d: "distinct (map (\<lambda>pl. stem (fst pl)) ps)" by simp
  from Cons.IH [OF Cons.prems(1) d q0] obtain w' where
    rest: "export_loop env dd ld ps counts' w1 = (Inr (), w')" by blast
  have "export_loop env dd ld ((p, l) # ps) counts w =
      (case dedup_name name (counts' name) of
         Inl e \<Rightarrow> (Inl e, w)
       | Inr nm \<Rightarrow>
           (case export_one env p l (path_join dd (nm @ ext)) (path_join ld (nm @ ''.xml'')) w of
              (Inl e, w1) \<Rightarrow> (Inl e, w1)
            | (Inr _, w1) \<Rightarrow> export_loop env dd ld ps counts' w1))"
    unfolding counts'_def by (simp add: se)
  with d0 eo rest pl show ?case by simp
qed

lemma new_calls_append: "calls w' = calls w @ evs \<Longrightarrow> new_calls w w' = evs"
  by (simp add: new_calls_def)

lemma export_unfold:
  assumes "export_voc_detection_dataset env ips labs dir w = (r, w')"
  shows "(\<exists>e evs. r = Inl e \<and> calls w' = calls w @ evs \<and> copies evs = [] \<and> annotations evs = []
            \<and> \<not> io_succeeds env)
       \<or> (\<exists>w0. calls w0 = calls w @ [EnsureDir (path_join dir ''data''),
                                       EnsureDir (path_join dir ''labels'')]
             \<and> export_loop env (path_join dir ''data'') (path_join dir ''labels'')
                  (zip ips labs) (\<lambda>_. 0) w0 = (r, w'))"
proof (cases "ensure_dir env (path_join dir ''data'') (files w)")
  case (Inl e)
  then have "\<not> io_succeeds env" unfolding io_succeeds_def by (metis sum.distinct(1))
  with Inl assms show ?thesis
    by (auto simp add: export_voc_detection_dataset_def Let_def voc_emit_def)
next
  case fs1: (Inr fs1)
  show ?thesis
  proof (cases "ensure_dir env (path_join dir ''labels'') fs1")
    case (Inl e)
    then have "\<not> io_succeeds env" unfolding io_succeeds_def by (metis sum.distinct(1))
    with Inl fs1 assms show ?thesis
      by (auto simp add: export_voc_detection_dataset_def Let_def voc_emit_def)
  next
    case fs2: (Inr fs2)
    show ?thesis
    proof (cases "load_template env fs2")
      case (Some e)
      then have "\<not> io_succeeds env" unfolding io_succeeds_def by (metis option.distinct(1))
      with Some fs1 fs2 assms show ?thesis
        by (auto simp add: export_voc_detection_dataset_def Let_def voc_emit_def)
    next
      case None
      with fs1 fs2 assms show ?thesis
        by (auto simp add: export_voc_detection_dataset_def Let_def voc_emit_def)
    qed
  qed
qed

text \<open>
  C10. Whatever happens, every copy made goes to the data directory under the base name
  of its source, and every annotation is written under the stem of its image, for a
  prefix of the paths in order: no name with a count appended is produced. A run that
  returns normally had pairwise distinct stems and copied every image under its
  original name; where no external call fails, distinct stems do make the run return
  normally. A repeated stem makes the run raise; where no external call fails, it raises
  \<open>TypeError\<close> (from \<open>"-%d" + count\<close>) on reaching the second occurrence, after copying
  exactly the images before it. The stem is the base name without its extension, the
  key of \<open>data_filename_counts\<close>.
\<close>

theorem export_never_renames:
  "export_voc_detection_dataset env image_paths labels dir w = (r, w') \<Longrightarrow>
     (\<exists>k j. copies (new_calls w w')
               = map (original_copy (path_join dir ''data''))
                   (take k (iterated_paths image_paths labels))
             \<and> annotations (new_calls w w')
               = map (original_annotation (path_join dir ''data'') (path_join dir ''labels''))
                   (take j (iterated_paths image_paths labels)))
     \<and> (r = Inr () \<longrightarrow>
          distinct (map stem (iterated_paths image_paths labels))
          \<and> copies (new_calls w w')
              = map (original_copy (path_join dir ''data'')) (iterated_paths image_paths labels))
     \<and> (\<not> distinct (map stem (iterated_paths image_paths labels)) \<longrightarrow> (\<exists>e. r = Inl e))
     \<and> (io_succeeds env \<and> distinct (map stem (iterated_paths image_paths labels)) \<longrightarrow> r = Inr ())
     \<and> (io_succeeds env \<and> iterated_paths image_paths labels = pre @ p # post
          \<and> distinct (map stem pre) \<and> stem p \<in> set (map stem pre) \<longrightarrow>
          r = Inl TypeError
          \<and> copies (new_calls w w') = map (original_copy (path_join dir ''data'')) pre)"
proof -
  assume run: "export_voc_detection_dataset env image_paths labels dir w = (r, w')"
  let ?dd = "path_join dir ''data''"
  let ?ld = "path_join dir ''labels''"
  let ?ps = "zip image_paths labels"
  let ?paths = "iterated_paths image_paths labels"
  have paths: "?paths = map fst ?ps" by (simp add: iterated_paths_def)
  have stems: "map stem ?paths = map (\<lambda>pl. stem (fst pl)) ?ps"
    by (simp add: iterated_paths_def)
  from export_unfold [OF run] show ?thesis
  proof
    assume "\<exists>e evs. r = Inl e \<and> calls w' = calls w @ evs \<and> copies evs = [] \<and> annotations evs = []
            \<and> \<not> io_succeeds env"
    then obtain e evs where f: "r = Inl e" "calls w' = calls w @ evs"
      "copies evs = [] \<and> annotations evs = []" "\<not> io_succeeds env" by blast
    from f(2,3) have "copies (new_calls w w') = map (original_copy ?dd) (take 0 ?paths)
        \<and> annotations (new_calls w w') = map (original_annotation ?dd ?ld) (take 0 ?paths)"
      by (simp add: new_calls_append)
    with f(1,4) show ?thesis by blast
  next
    assume "\<exists>w0. calls w0 = calls w @ [EnsureDir ?dd, EnsureDir ?ld]
             \<and> export_loop env ?dd ?ld ?ps (\<lambda>_. 0) w0 = (r, w')"
    then obtain w0 where w0: "calls w0 = calls w @ [EnsureDir ?dd, EnsureDir ?ld]"
      and loop: "export_loop env ?dd ?ld ?ps (\<lambda>_. 0) w0 = (r, w')" by blast
    from export_loop_copies [OF loop] obtain k j evs where
      k: "calls w' = calls w0 @ evs" "copies evs = map (original_copy ?dd) (take k (map fst ?ps))"
         "r = Inr () \<longrightarrow> length ?ps \<le> k \<and> length ?ps \<le> j"
      and j: "annotations evs = map (original_annotation ?dd ?ld) (take j (map fst ?ps))"
      by blast
    from w0 k(1) have nc: "copies (new_calls w w') = copies evs"
      and na: "annotations (new_calls w w') = annotations evs"
      by (simp_all add: new_calls_def copies_append annotations_append)
    have 1: "\<exists>k j. copies (new_calls w w') = map (original_copy ?dd) (take k ?paths)
        \<and> annotations (new_calls w w') = map (original_annotation ?dd ?ld) (take j ?paths)"
      using nc na k(2) j paths by auto
    have succ: "r = Inr () \<longrightarrow> distinct (map stem ?paths)
        \<and> copies (new_calls w w') = map (original_copy ?dd) ?paths"
    proof
      assume ok: "r = Inr ()"
      with loop have "distinct (map (\<lambda>pl. stem (fst pl)) ?ps)"
        using export_loop_success_distinct [of env ?dd ?ld ?ps "\<lambda>_. 0" w0 "()" w'] by simp
      moreover from ok k(2,3) nc paths
      have "copies (new_calls w w') = map (original_copy ?dd) ?paths" by simp
      ultimately show "distinct (map stem ?paths)
          \<and> copies (new_calls w w') = map (original_copy ?dd) ?paths"
        using stems by simp
    qed
    have 3: "\<not> distinct (map stem ?paths) \<longrightarrow> (\<exists>e. r = Inl e)"
    proof
      assume nd: "\<not> distinct (map stem ?paths)"
      show "\<exists>e. r = Inl e"
      proof (cases r)
        case (Inl e)
        then show ?thesis by blast
      next
        case (Inr u)
        with succ nd show ?thesis by simp
      qed
    qed
    have 4: "io_succeeds env \<and> distinct (map stem ?paths) \<longrightarrow> r = Inr ()"
    proof
      assume h: "io_succeeds env \<and> distinct (map stem ?paths)"
      with stems have "distinct (map (\<lambda>pl. stem (fst pl)) ?ps)" by simp
      from export_loop_succeeds [OF conjunct1 [OF h] this, of "\<lambda>_. 0" ?dd ?ld w0] loop
      show "r = Inr ()" by auto
    qed
    have 5: "io_succeeds env \<and> ?paths = pre @ p # post
          \<and> distinct (map stem pre) \<and> stem p \<in> set (map stem pre) \<longrightarrow>
          r = Inl TypeError \<and> copies (new_calls w w') = map (original_copy ?dd) pre"
    proof
      assume h: "io_succeeds env \<and> ?paths = pre @ p # post
          \<and> distinct (map stem pre) \<and> stem p \<in> set (map stem pre)"
      then have "map fst ?ps = pre @ p # post" using paths by simp
      then obtain ps1 q ps2 where split: "?ps = ps1 @ q # ps2" "map fst ps1 = pre" "fst q = p"
        by (auto simp add: map_eq_append_conv map_eq_Cons_conv)
      obtain l where q: "q = (p, l)" using split(3) by (cases q) simp
      have mm: "map stem pre = map (\<lambda>pl. stem (fst pl)) ps1"
        using split(2) by (auto simp add: comp_def)
      from h have d1: "distinct (map (\<lambda>pl. stem (fst pl)) ps1)"
        by (simp only: mm)
      from export_loop_succeeds [OF conjunct1 [OF h] d1, of "\<lambda>_. 0" ?dd ?ld w0]
      obtain w1 where l1: "export_loop env ?dd ?ld ps1 (\<lambda>_. 0) w0 = (Inr (), w1)" by auto
      from h have mem: "stem p \<in> set (map (\<lambda>pl. stem (fst pl)) ps1)"
        by (simp only: mm)
      from export_loop_second_occurrence [OF l1 mem, of l ps2] loop split(1) q
      have res: "r = Inl TypeError" "w' = w1" by auto
      from export_loop_copies [OF l1] obtain k1 evs1 where
        k1: "calls w1 = calls w0 @ evs1"
            "copies evs1 = map (original_copy ?dd) (take k1 (map fst ps1))"
            "length ps1 \<le> k1"
        by blast
      have "length pre = length ps1" using split(2) by auto
      with k1(2,3) split(2) have "copies evs1 = map (original_copy ?dd) pre" by simp
      with w0 k1(1) res(2)
      have "copies (new_calls w w') = map (original_copy ?dd) pre"
        by (simp add: new_calls_def copies_append)
      with res(1) show "r = Inl TypeError
          \<and> copies (new_calls w w') = map (original_copy ?dd) pre" by simp
    qed
    from 1 succ 3 4 5 show ?thesis by blast
  qed
qed

lemma demo_io_succeeds: "io_succeeds demo_voc_env"
  by (simp add: io_succeeds_def demo_voc_env_def)

lemma demo_stems:
  "stem ''a/x.jpg'' = ''x''" "stem ''b/x.png'' = ''x''" "stem ''b/y.png'' = ''y''"
  by (simp_all add: stem_def splitext_def basename_def)

theorem export_never_renames_witness:
  "fst (export_voc_detection_dataset demo_voc_env [''a/x.jpg'', ''b/x.png'', ''c.png'']
          [(), (), ()] ''out'' demo_voc_world) = Inl TypeError
   \<and> copies (calls (snd (export_voc_detection_dataset demo_voc_env
          [''a/x.jpg'', ''b/x.png'', ''c.png''] [(), (), ()] ''out'' demo_voc_world)))
       = [(''a/x.jpg'', ''out/data/x.jpg'')]
   \<and> fst (export_voc_detection_dataset demo_voc_env [''a/x.jpg'', ''b/y.png'']
          [(), ()] ''out'' demo_voc_world) = Inr ()
   \<and> copies (calls (snd (export_voc_detection_dataset demo_voc_env
          [''a/x.jpg'', ''b/y.png''] [(), ()] ''out'' demo_voc_world)))
       = [(''a/x.jpg'', ''out/data/x.jpg''), (''b/y.png'', ''out/data/y.png'')]"
proof -
  define run1 where "run1 = export_voc_detection_dataset demo_voc_env
      [''a/x.jpg'', ''b/x.png'', ''c.png''] [(), (), ()] ''out'' demo_voc_world"
  define run2 where "run2 = export_voc_detection_dataset demo_voc_env
      [''a/x.jpg'', ''b/y.png''] [(), ()] ''out'' demo_voc_world"
  have e1: "export_voc_detection_dataset demo_voc_env
      [''a/x.jpg'', ''b/x.png'', ''c.png''] [(), (), ()] ''out'' demo_voc_world
        = (fst run1, snd run1)" by (simp add: run1_def)
  have e2: "export_voc_detection_dataset demo_voc_env
      [''a/x.jpg'', ''b/y.png''] [(), ()] ''out'' demo_voc_world
        = (fst run2, snd run2)" by (simp add: run2_def)
  have nc: "new_calls demo_voc_world w' = calls w'" for w' :: "unit voc_world"
    by (simp add: new_calls_def demo_voc_world_def)
  have h1: "io_succeeds demo_voc_env
      \<and> iterated_paths [''a/x.jpg'', ''b/x.png'', ''c.png''] [(), (), ()]
          = [''a/x.jpg''] @ ''b/x.png'' # [''c.png'']
      \<and> distinct (map stem [''a/x.jpg''])
      \<and> stem ''b/x.png'' \<in> set (map stem [''a/x.jpg''])"
    by (simp add: demo_io_succeeds iterated_paths_def demo_stems)
  from export_never_renames [OF e1, THEN conjunct2, THEN conjunct2, THEN conjunct2,
         THEN conjunct2, rule_format, OF h1]
  have a: "fst run1 = Inl TypeError"
    "copies (calls (snd run1)) = [(''a/x.jpg'', ''out/data/x.jpg'')]"
    by (simp_all add: nc original_copy_def path_join_def basename_def)
  have h2: "io_succeeds demo_voc_env
      \<and> distinct (map stem (iterated_paths [''a/x.jpg'', ''b/y.png''] [(), ()]))"
    by (simp add: demo_io_succeeds iterated_paths_def demo_stems)
  from export_never_renames [OF e2, THEN conjunct2, THEN conjunct2, THEN conjunct2,
         THEN conjunct1, rule_format, OF h2]
  have b: "fst run2 = Inr ()" .
  from export_never_renames [OF e2, THEN conjunct2, THEN conjunct1, rule_format, OF b]
  have c: "copies (calls (snd run2))
      = [(''a/x.jpg'', ''out/data/x.jpg''), (''b/y.png'', ''out/data/y.png'')]"
    by (simp add: nc original_copy_def path_join_def basename_def iterated_paths_def)
  from a b c show ?thesis by (simp add: run1_def run2_def)
qed

section \<open>The effects of the steps of a run\<close>

lemma emit_simps [simp]:
  "mstate (emit ev w) = mstate w" "store (emit ev w) = store w"
  "trace (emit ev w) = trace w @ [ev]"
  by (simp_all add: emit_def)

lemma set_and_save_simps [simp]:
  "mstate (set_and_save s f v w) = mstate w"
  "store (set_and_save s f v w) = (store w)(sid s := (store w (sid s))(f := v))"
  "trace (set_and_save s f v w) = trace w @ [SetField (sid s) f, Save (sid s)]"
  by (simp_all add: set_and_save_def set_field_def)

lemma saved_ids_append [simp]: "saved_ids (xs @ ys) = saved_ids xs @ saved_ids ys"
  by (induction xs rule: saved_ids.induct) auto

lemma set_fields_append [simp]: "set_fields (xs @ ys) = set_fields xs @ set_fields ys"
  by (induction xs rule: set_fields.induct) auto

lemma embed_all_calls_append [simp]:
  "embed_all_calls (xs @ ys) = embed_all_calls xs @ embed_all_calls ys"
  by (induction xs rule: embed_all_calls.induct) auto

lemma embed_calls_append [simp]: "embed_calls (xs @ ys) = embed_calls xs @ embed_calls ys"
  by (induction xs rule: embed_calls.induct) auto

lemma run_ok_quiet:
  "store w' = store w \<Longrightarrow> trace w' = trace w @ evs \<Longrightarrow> saved_ids evs = []
     \<Longrightarrow> set_fields evs = [] \<Longrightarrow> run_ok ef w w' evs"
  by (simp add: run_ok_def split: option.splits)

lemma run_ok_refl: "run_ok ef w w []"
  by (simp add: run_ok_quiet)

lemma run_ok_trans:
  "run_ok ef w w1 e1 \<Longrightarrow> run_ok ef w1 w2 e2 \<Longrightarrow> run_ok ef w w2 (e1 @ e2)"
  by (auto simp add: run_ok_def split: option.splits)

lemma run_ok_save:
  "truthy_field ef = Some f
     \<Longrightarrow> run_ok ef w (set_and_save s f v w) [SetField (sid s) f, Save (sid s)]"
  by (simp add: run_ok_def)

lemma call_embed_effect:
  "call_embed m x w = (r, w') \<Longrightarrow> store w' = store w \<and> trace w' = trace w @ [EmbedCall x]"
  by (auto simp add: call_embed_def split: prod.splits)

lemma call_embed_all_effect:
  "call_embed_all m xs w = (r, w')
     \<Longrightarrow> store w' = store w \<and> trace w' = trace w @ [EmbedAllCall xs]"
  by (auto simp add: call_embed_all_def split: prod.splits)

lemma emit_run_ok:
  "saved_ids [ev] = [] \<Longrightarrow> set_fields [ev] = [] \<Longrightarrow> run_ok ef w (emit ev w) [ev]"
  by (rule run_ok_quiet) simp_all

lemma concat_iter_batches:
  "concat (iter_batches xs n) = (if n \<le> 0 then [] else xs)"
proof (induction xs n rule: iter_batches.induct)
  case (1 xs n)
  show ?case
  proof (cases "n \<le> 0 \<or> xs = []")
    case True
    then show ?thesis by (subst iter_batches.simps) auto
  next
    case False
    with 1 show ?thesis by (subst iter_batches.simps) simp
  qed
qed

lemma finish_embeddings_world: "finish_embeddings ef (r, w) = (r', w') \<Longrightarrow> w' = w"
  by (auto simp add: finish_embeddings_def split: sum.splits option.splits)

lemma finish_embeddings_Inr:
  "finish_embeddings ef (r, w) = (Inr x, w') \<Longrightarrow> \<exists>embs. r = Inr embs"
  by (auto simp add: finish_embeddings_def split: sum.splits option.splits)

lemma with_model_world:
  "with_model m body w = (r, w') \<Longrightarrow>
     \<exists>w1. body (w\<lparr>mstate := enter_model m (mstate w)\<rparr>) = (r, w1)
        \<and> store w' = store w1 \<and> trace w' = trace w1"
  by (auto simp add: with_model_def split: prod.splits)

lemma run_ok_mstate:
  "run_ok ef w0 w1 evs \<Longrightarrow> store w0 = store w \<Longrightarrow> trace w0 = trace w
     \<Longrightarrow> store w' = store w1 \<Longrightarrow> trace w' = trace w1 \<Longrightarrow> run_ok ef w w' evs"
  by (simp add: run_ok_def)

lemma parse_batch_size_run:
  "parse_batch_size dflt bs m w = (r, w1)
     \<Longrightarrow> store w1 = store w \<and> mstate w1 = mstate w
        \<and> (trace w1 = trace w \<or> trace w1 = trace w @ [Warning])"
  by (auto simp add: parse_batch_size_def Let_def
        split: option.splits sum.splits bool.splits if_splits)

lemma run_ok_after_parse:
  assumes "store w1 = store w" "trace w1 = trace w \<or> trace w1 = trace w @ [Warning]"
    and "run_ok ef w1 w' evs"
  shows "\<exists>evs0. run_ok ef w w' (evs0 @ evs) \<and> saved_ids evs0 = [] \<and> set_fields evs0 = []
      \<and> embed_all_calls evs0 = [] \<and> embed_calls evs0 = []"
proof -
  from assms(2) show ?thesis
  proof
    assume "trace w1 = trace w"
    with assms(1) have "run_ok ef w w1 []" by (intro run_ok_quiet) simp_all
    from run_ok_trans [OF this assms(3)] show ?thesis by (intro exI [of _ "[]"]) simp
  next
    assume "trace w1 = trace w @ [Warning]"
    with assms(1) have "run_ok ef w w1 [Warning]" by (intro run_ok_quiet) simp_all
    from run_ok_trans [OF this assms(3)] show ?thesis by (intro exI [of _ "[Warning]"]) simp
  qed
qed

section \<open>The effects of the patch loop\<close>

lemma patches_single_loop_run:
  "patches_single_loop env m img fs alpha dets embs w = (r, w') \<Longrightarrow>
     store w' = store w
     \<and> (\<exists>k. k \<le> length dets
          \<and> trace w' = trace w
               @ map (\<lambda>d. EmbedCall (extract_patch env img d fs alpha)) (take k dets)
          \<and> (\<forall>x. r = Inr x \<longrightarrow> k = length dets))"
proof (induction dets arbitrary: embs w)
  case Nil
  then show ?case by auto
next
  case (Cons d ds)
  let ?p = "extract_patch env img d fs alpha"
  obtain r1 w1 where ce: "call_embed m ?p w = (r1, w1)" by (cases "call_embed m ?p w")
  note e = call_embed_effect [OF ce]
  show ?case
  proof (cases r1)
    case (Inl e')
    with Cons.prems ce have "r = Inl e'" "w' = w1" by simp_all
    with e show ?thesis by (auto intro!: exI [of _ 1])
  next
    case (Inr emb)
    with Cons.prems ce
    have "patches_single_loop env m img fs alpha ds (embs @ [emb]) w1 = (r, w')" by simp
    from Cons.IH [OF this] obtain k where
      k: "store w' = store w1" "k \<le> length ds"
         "trace w' = trace w1 @ map (\<lambda>d. EmbedCall (extract_patch env img d fs alpha)) (take k ds)"
         "\<forall>x. r = Inr x \<longrightarrow> k = length ds"
      by blast
    with e show ?thesis by (auto intro!: exI [of _ "Suc k"])
  qed
qed

lemma patches_batch_loop_run:
  "patches_batch_loop env m img fs alpha bss embs w = (r, w') \<Longrightarrow>
     store w' = store w
     \<and> (\<exists>k. k \<le> length bss
          \<and> trace w' = trace w
               @ map (\<lambda>c. EmbedAllCall (map (\<lambda>d. extract_patch env img d fs alpha) c)) (take k bss)
          \<and> (\<forall>x. r = Inr x \<longrightarrow> k = length bss
                \<and> (\<exists>rs. embed_all_each m
                             (map (map (\<lambda>d. extract_patch env img d fs alpha)) bss) (mstate w)
                           = (Inr rs, mstate w') \<and> x = embs @ rs)))"
proof (induction bss arbitrary: embs w)
  case Nil
  then show ?case by auto
next
  case (Cons c cs)
  let ?ps = "map (\<lambda>d. extract_patch env img d fs alpha) c"
  obtain r1 w1 where ce: "call_embed_all m ?ps w = (r1, w1)" by (cases "call_embed_all m ?ps w")
  note e = call_embed_all_effect [OF ce]
  from ce have ms: "embed_all m ?ps (mstate w) = (r1, mstate w1)"
    by (auto simp add: call_embed_all_def split: prod.splits)
  show ?case
  proof (cases r1)
    case (Inl e')
    with Cons.prems ce have "r = Inl e'" "w' = w1" by simp_all
    with e show ?thesis by (auto intro!: exI [of _ 1])
  next
    case (Inr emb)
    with Cons.prems ce
    have "patches_batch_loop env m img fs alpha cs (embs @ [emb]) w1 = (r, w')" by simp
    from Cons.IH [OF this] obtain k where
      k: "store w' = store w1" "k \<le> length cs"
         "trace w' = trace w1
            @ map (\<lambda>c. EmbedAllCall (map (\<lambda>d. extract_patch env img d fs alpha) c)) (take k cs)"
         "\<forall>x. r = Inr x \<longrightarrow> k = length cs
                \<and> (\<exists>rs. embed_all_each m
                             (map (map (\<lambda>d. extract_patch env img d fs alpha)) cs) (mstate w1)
                           = (Inr rs, mstate w') \<and> x = (embs @ [emb]) @ rs)"
      by blast
    have "\<forall>x. r = Inr x \<longrightarrow> Suc k = length (c # cs)
                \<and> (\<exists>rs. embed_all_each m
                             (map (map (\<lambda>d. extract_patch env img d fs alpha)) (c # cs)) (mstate w)
                           = (Inr rs, mstate w') \<and> x = embs @ rs)"
    proof (intro allI impI)
      fix x assume "r = Inr x"
      with k(4) obtain rs where rs: "k = length cs"
        "embed_all_each m (map (map (\<lambda>d. extract_patch env img d fs alpha)) cs) (mstate w1)
           = (Inr rs, mstate w')" "x = (embs @ [emb]) @ rs"
        by blast
      from ms Inr rs(2) have "embed_all_each m
          (map (map (\<lambda>d. extract_patch env img d fs alpha)) (c # cs)) (mstate w)
            = (Inr (emb # rs), mstate w')" by simp
      with rs(1,3) show "Suc k = length (c # cs)
                \<and> (\<exists>rs. embed_all_each m
                             (map (map (\<lambda>d. extract_patch env img d fs alpha)) (c # cs)) (mstate w)
                           = (Inr rs, mstate w') \<and> x = embs @ rs)"
        by (intro conjI exI [of _ "emb # rs"]) simp_all
    qed
    with k(1,2,3) e show ?thesis
      by (intro conjI exI [of _ "Suc k"]) simp_all
  qed
qed

lemma embed_patches_batch_run:
  assumes "embed_patches_batch env m img dets fs alpha b w = (r, w')"
  shows "store w' = store w
     \<and> (\<exists>evs. trace w' = trace w @ evs
          \<and> prefix evs (patch_calls env (Some b) fs alpha img dets)
          \<and> (\<forall>a. r = Inr a \<longrightarrow> evs = patch_calls env (Some b) fs alpha img dets
                \<and> (\<exists>rs. embed_all_each m
                       (map (map (\<lambda>d. extract_patch env img d fs alpha)) (iter_batches dets b))
                       (mstate w) = (Inr rs, mstate w') \<and> np_concatenate rs = Inr a)))"
proof -
  let ?bss = "iter_batches dets b"
  let ?F = "\<lambda>c. EmbedAllCall (map (\<lambda>d. extract_patch env img d fs alpha) c)"
  obtain r1 w1 where l: "patches_batch_loop env m img fs alpha ?bss [] w = (r1, w1)"
    by (cases "patches_batch_loop env m img fs alpha ?bss [] w")
  with assms have w': "w' = w1"
    by (auto simp add: embed_patches_batch_def split: sum.splits)
  from patches_batch_loop_run [OF l] obtain k where
    k: "store w1 = store w" "k \<le> length ?bss" "trace w1 = trace w @ map ?F (take k ?bss)"
       "\<forall>x. r1 = Inr x \<longrightarrow> k = length ?bss
          \<and> (\<exists>rs. embed_all_each m
                 (map (map (\<lambda>d. extract_patch env img d fs alpha)) ?bss) (mstate w)
               = (Inr rs, mstate w1) \<and> x = [] @ rs)"
    by blast
  have pre: "prefix (map ?F (take k ?bss)) (patch_calls env (Some b) fs alpha img dets)"
    by (simp add: patch_calls_def take_is_prefix flip: take_map)
  have "\<forall>a. r = Inr a \<longrightarrow> map ?F (take k ?bss) = patch_calls env (Some b) fs alpha img dets
                \<and> (\<exists>rs. embed_all_each m
                       (map (map (\<lambda>d. extract_patch env img d fs alpha)) ?bss)
                       (mstate w) = (Inr rs, mstate w') \<and> np_concatenate rs = Inr a)"
  proof (intro allI impI)
    fix a assume ra: "r = Inr a"
    with assms l obtain embs where e: "r1 = Inr embs" "np_concatenate embs = Inr a"
      by (auto simp add: embed_patches_batch_def split: sum.splits)
    with k(4) obtain rs where rs: "k = length ?bss"
      "embed_all_each m (map (map (\<lambda>d. extract_patch env img d fs alpha)) ?bss) (mstate w)
         = (Inr rs, mstate w1)" "embs = rs" by auto
    with e w' show "map ?F (take k ?bss) = patch_calls env (Some b) fs alpha img dets
                \<and> (\<exists>rs. embed_all_each m
                       (map (map (\<lambda>d. extract_patch env img d fs alpha)) ?bss)
                       (mstate w) = (Inr rs, mstate w') \<and> np_concatenate rs = Inr a)"
      by (simp add: patch_calls_def)
  qed
  with k(1,3) pre w' show ?thesis by (intro conjI exI [of _ "map ?F (take k ?bss)"]) simp_all
qed

lemma embed_patches_single_run:
  assumes "embed_patches_single env m img dets fs alpha w = (r, w')"
  shows "store w' = store w
     \<and> (\<exists>evs. trace w' = trace w @ evs
          \<and> prefix evs (patch_calls env None fs alpha img dets)
          \<and> (\<forall>a. r = Inr a \<longrightarrow> evs = patch_calls env None fs alpha img dets))"
proof -
  let ?F = "\<lambda>d. EmbedCall (extract_patch env img d fs alpha)"
  obtain r1 w1 where l: "patches_single_loop env m img fs alpha dets [] w = (r1, w1)"
    by (cases "patches_single_loop env m img fs alpha dets [] w")
  with assms have w': "w' = w1"
    by (auto simp add: embed_patches_single_def split: sum.splits)
  from patches_single_loop_run [OF l] obtain k where
    k: "store w1 = store w" "k \<le> length dets" "trace w1 = trace w @ map ?F (take k dets)"
       "\<forall>x. r1 = Inr x \<longrightarrow> k = length dets"
    by blast
  have pre: "prefix (map ?F (take k dets)) (patch_calls env None fs alpha img dets)"
    by (simp add: patch_calls_def take_is_prefix flip: take_map)
  have "\<forall>a. r = Inr a \<longrightarrow> map ?F (take k dets) = patch_calls env None fs alpha img dets"
  proof (intro allI impI)
    fix a assume ra: "r = Inr a"
    with assms l obtain embs where e: "r1 = Inr embs"
      by (auto simp add: embed_patches_single_def split: sum.splits)
    with k(4) show "map ?F (take k dets) = patch_calls env None fs alpha img dets"
      by (simp add: patch_calls_def)
  qed
  with k(1,3) pre w' show ?thesis by (intro conjI exI [of _ "map ?F (take k dets)"]) simp_all
qed

lemma quiet_map_EmbedCall [simp]:
  "saved_ids (map (\<lambda>x. EmbedCall (f x)) xs) = []"
  "set_fields (map (\<lambda>x. EmbedCall (f x)) xs) = []"
  by (induction xs) auto

lemma quiet_map_EmbedAllCall [simp]:
  "saved_ids (map (\<lambda>x. EmbedAllCall (g x)) ys) = []"
  "set_fields (map (\<lambda>x. EmbedAllCall (g x)) ys) = []"
  by (induction ys) auto

lemma patch_calls_quiet [simp]:
  "saved_ids (patch_calls env bs fs alpha img dets) = []"
  "set_fields (patch_calls env bs fs alpha img dets) = []"
  by (simp_all add: patch_calls_def split: option.splits)

lemma prefix_quiet:
  "prefix evs full \<Longrightarrow> saved_ids full = [] \<Longrightarrow> set_fields full = []
     \<Longrightarrow> saved_ids evs = [] \<and> set_fields evs = []"
  by (auto elim!: prefixE)

lemma embed_sample_patches_failed_read:
  "read_image env (filepath s) = Inl e
     \<Longrightarrow> embed_sample_patches env m bs fs alpha s dets w = (Inl e, emit (Decode (filepath s)) w)"
  by (simp add: embed_sample_patches_def)

lemma embed_sample_patches_run:
  assumes "embed_sample_patches env m bs fs alpha s dets w = (r, w1)"
    and "read_image env (filepath s) = Inr img"
  shows "store w1 = store w
     \<and> (\<exists>evs. trace w1 = trace w @ Decode (filepath s) # evs
          \<and> prefix evs (patch_calls env bs fs alpha img dets)
          \<and> (\<forall>a. r = Inr a \<longrightarrow> evs = patch_calls env bs fs alpha img dets))"
proof (cases bs)
  case None
  with assms have "embed_patches_single env m img dets fs alpha (emit (Decode (filepath s)) w)
      = (r, w1)" by (simp add: embed_sample_patches_def)
  from embed_patches_single_run [OF this] None show ?thesis by auto
next
  case (Some b)
  with assms have "embed_patches_batch env m img dets fs alpha b (emit (Decode (filepath s)) w)
      = (r, w1)" by (simp add: embed_sample_patches_def)
  from embed_patches_batch_run [OF this] Some show ?thesis by auto
qed

lemma parse_patches_cong:
  "store w2 (sid x) pf = store w (sid x) pf \<Longrightarrow> parse_patches env w2 x pf = parse_patches env w x pf"
  by (simp add: parse_patches_def)

lemma patch_events_cong:
  assumes "\<forall>x \<in> set ss. store w2 (sid x) pf = store w (sid x) pf"
  shows "patch_events env pf ef bs fs alpha w2 ss = patch_events env pf ef bs fs alpha w ss"
    and "{x \<in> set ss. has_detections env w2 x pf} = {x \<in> set ss. has_detections env w x pf}"
proof -
  have pp: "parse_patches env w2 x pf = parse_patches env w x pf" if "x \<in> set ss" for x
    using assms that by (blast intro: parse_patches_cong)
  have "map (sample_patch_events env pf ef bs fs alpha w2) ss
          = map (sample_patch_events env pf ef bs fs alpha w) ss"
    by (rule map_cong [OF refl]) (simp add: sample_patch_events_def pp)
  then show "patch_events env pf ef bs fs alpha w2 ss = patch_events env pf ef bs fs alpha w ss"
    unfolding patch_events_def by (rule arg_cong)
  show "{x \<in> set ss. has_detections env w2 x pf} = {x \<in> set ss. has_detections env w x pf}"
    using pp by (auto simp add: has_detections_def)
qed

lemma patch_loop_run:
  "distinct (map sid ss) \<Longrightarrow> patch_loop env m pf ef bs fs alpha ss d w = (r, w') \<Longrightarrow>
     \<exists>evs. run_ok ef w w' evs
       \<and> prefix evs (patch_events env pf ef bs fs alpha w ss)
       \<and> (\<forall>d'. r = Inr d' \<longrightarrow> evs = patch_events env pf ef bs fs alpha w ss
             \<and> (\<forall>i. i \<notin> sid ` {x \<in> set ss. has_detections env w x pf} \<longrightarrow> d' i = d i))"
proof (induction ss arbitrary: d w)
  case Nil
  then have "r = Inr d" "w' = w" by simp_all
  then show ?case
    by (intro exI [of _ "[]"]) (simp add: run_ok_refl patch_events_def)
next
  case (Cons s ss)
  let ?PE = "\<lambda>w ss. patch_events env pf ef bs fs alpha w ss"
  let ?SE = "sample_patch_events env pf ef bs fs alpha w s"
  let ?H = "\<lambda>w x. has_detections env w x pf"
  have pe: "?PE w (s # ss) = ?SE @ ?PE w ss" by (simp add: patch_events_def)
  from Cons.prems(1) have dist: "distinct (map sid ss)" and notin: "\<forall>x \<in> set ss. sid x \<noteq> sid s"
    by (auto simp add: image_iff)
  show ?case
  proof (cases "?H w s")
    case False
    then have se: "?SE = []"
      by (auto simp add: sample_patch_events_def has_detections_def split: option.splits)
    from False Cons.prems(2) have "patch_loop env m pf ef bs fs alpha ss d w = (r, w')"
      by (auto simp add: has_detections_def split: option.splits)
    from Cons.IH [OF dist this] obtain evs where
      ih: "run_ok ef w w' evs" "prefix evs (?PE w ss)"
        "\<forall>d'. r = Inr d' \<longrightarrow> evs = ?PE w ss
             \<and> (\<forall>i. i \<notin> sid ` {x \<in> set ss. ?H w x} \<longrightarrow> d' i = d i)"
      by blast
    from False have "{x \<in> set (s # ss). ?H w x} = {x \<in> set ss. ?H w x}" by auto
    with ih pe se show ?thesis by (intro exI [of _ evs]) simp
  next
    case True
    then obtain dets where dets: "parse_patches env w s pf = Some dets" "dets \<noteq> []"
      by (auto simp add: has_detections_def split: option.splits)
    obtain r1 w1 where esp: "embed_sample_patches env m bs fs alpha s dets w = (r1, w1)"
      by (cases "embed_sample_patches env m bs fs alpha s dets w")
    show ?thesis
    proof (cases "read_image env (filepath s)")
      case (Inl e)
      with esp have r1: "r1 = Inl e" "w1 = emit (Decode (filepath s)) w"
        by (simp_all add: embed_sample_patches_failed_read)
      with Cons.prems(2) dets esp have res: "r = Inl e" "w' = emit (Decode (filepath s)) w"
        by simp_all
      from Inl dets have se: "?SE = [Decode (filepath s)]"
        by (simp add: sample_patch_events_def)
      have "run_ok ef w (emit (Decode (filepath s)) w) [Decode (filepath s)]"
        by (rule emit_run_ok) simp_all
      with res pe se show ?thesis by (intro exI [of _ "[Decode (filepath s)]"]) simp
    next
      case (Inr img)
      let ?PC = "patch_calls env bs fs alpha img dets"
      from embed_sample_patches_run [OF esp Inr] obtain evs1 where
        e1: "store w1 = store w" "trace w1 = trace w @ Decode (filepath s) # evs1"
          "prefix evs1 ?PC" "\<forall>a. r1 = Inr a \<longrightarrow> evs1 = ?PC"
        by blast
      from prefix_quiet [OF e1(3)] have q1: "saved_ids evs1 = []" "set_fields evs1 = []"
        by simp_all
      from e1(1,2) q1 have ok1: "run_ok ef w w1 (Decode (filepath s) # evs1)"
        by (intro run_ok_quiet) simp_all
      from Inr dets have se: "?SE = Decode (filepath s) # ?PC
          @ (case truthy_field ef of None \<Rightarrow> [] | Some f \<Rightarrow> [SetField (sid s) f, Save (sid s)])"
        by (simp add: sample_patch_events_def)
      show ?thesis
      proof (cases r1)
        case (Inl e)
        with Cons.prems(2) dets esp have res: "r = Inl e" "w' = w1" by simp_all
        from e1(3) have "prefix (Decode (filepath s) # evs1) (?PE w (s # ss))"
          unfolding pe se by simp
        with ok1 res show ?thesis by (intro exI [of _ "Decode (filepath s) # evs1"]) simp
      next
        case a: (Inr a)
        with e1(4) have evs1: "evs1 = ?PC" by simp
        show ?thesis
        proof (cases "truthy_field ef")
          case None
          with Cons.prems(2) dets esp a
          have l: "patch_loop env m pf ef bs fs alpha ss (d(sid s \<mapsto> a)) w1 = (r, w')" by simp
          from e1(1) have same: "\<forall>x \<in> set ss. store w1 (sid x) pf = store w (sid x) pf" by simp
          note c = patch_events_cong(1) [OF same, of env ef bs fs alpha]
            patch_events_cong(2) [OF same, of env]
          from Cons.IH [OF dist l] obtain evs where
            ih: "run_ok ef w1 w' evs" "prefix evs (?PE w1 ss)"
              "\<forall>d'. r = Inr d' \<longrightarrow> evs = ?PE w1 ss
                \<and> (\<forall>i. i \<notin> sid ` {x \<in> set ss. ?H w1 x} \<longrightarrow> d' i = (d(sid s \<mapsto> a)) i)"
            by blast
          from None se evs1 have se': "?SE = Decode (filepath s) # evs1" by simp
          have dict: "\<forall>d'. r = Inr d' \<longrightarrow> (Decode (filepath s) # evs1) @ evs = ?PE w (s # ss)
                \<and> (\<forall>i. i \<notin> sid ` {x \<in> set (s # ss). ?H w x} \<longrightarrow> d' i = d i)"
          proof (intro allI impI conjI)
            fix d' assume "r = Inr d'"
            with ih(3) c(1) pe se' show "(Decode (filepath s) # evs1) @ evs = ?PE w (s # ss)"
              by simp
          next
            fix d' i assume r: "r = Inr d'" and i: "i \<notin> sid ` {x \<in> set (s # ss). ?H w x}"
            from i True have ne: "i \<noteq> sid s" by auto
            from i have ni: "i \<notin> sid ` {x \<in> set ss. ?H w x}" by auto
            from ih(3) r
            have "\<forall>i. i \<notin> sid ` {x \<in> set ss. ?H w1 x} \<longrightarrow> d' i = (d(sid s \<mapsto> a)) i"
              by blast
            then have "\<forall>i. i \<notin> sid ` {x \<in> set ss. ?H w x} \<longrightarrow> d' i = (d(sid s \<mapsto> a)) i"
              by (simp only: c(2))
            with ni ne show "d' i = d i" by simp
          qed
          from ih(2) c(1) have "prefix ((Decode (filepath s) # evs1) @ evs) (?PE w (s # ss))"
            unfolding pe se' by simp
          with run_ok_trans [OF ok1 ih(1)] dict show ?thesis
            by (intro exI [of _ "(Decode (filepath s) # evs1) @ evs"]) simp
        next
          case (Some f)
          let ?w2 = "set_and_save s f (ArrayVal a) w1"
          let ?E = "(Decode (filepath s) # evs1) @ [SetField (sid s) f, Save (sid s)]"
          from Some Cons.prems(2) dets esp a
          have l: "patch_loop env m pf ef bs fs alpha ss d ?w2 = (r, w')" by simp
          from e1(1) notin
          have same: "\<forall>x \<in> set ss. store ?w2 (sid x) pf = store w (sid x) pf" by simp
          note c = patch_events_cong(1) [OF same, of env ef bs fs alpha]
            patch_events_cong(2) [OF same, of env]
          from Cons.IH [OF dist l] obtain evs where
            ih: "run_ok ef ?w2 w' evs" "prefix evs (?PE ?w2 ss)"
              "\<forall>d'. r = Inr d' \<longrightarrow> evs = ?PE ?w2 ss
                \<and> (\<forall>i. i \<notin> sid ` {x \<in> set ss. ?H ?w2 x} \<longrightarrow> d' i = d i)"
            by blast
          from Some se evs1 have se': "?SE = ?E" by simp
          have dict: "\<forall>d'. r = Inr d' \<longrightarrow> ?E @ evs = ?PE w (s # ss)
                \<and> (\<forall>i. i \<notin> sid ` {x \<in> set (s # ss). ?H w x} \<longrightarrow> d' i = d i)"
          proof (intro allI impI conjI)
            fix d' assume "r = Inr d'"
            with ih(3) c(1) pe se' show "?E @ evs = ?PE w (s # ss)" by simp
          next
            fix d' i assume r: "r = Inr d'" and i: "i \<notin> sid ` {x \<in> set (s # ss). ?H w x}"
            from i have ni: "i \<notin> sid ` {x \<in> set ss. ?H w x}" by auto
            from ih(3) r
            have "\<forall>i. i \<notin> sid ` {x \<in> set ss. ?H ?w2 x} \<longrightarrow> d' i = d i"
              by blast
            then have "\<forall>i. i \<notin> sid ` {x \<in> set ss. ?H w x} \<longrightarrow> d' i = d i"
              by (simp only: c(2))
            with ni show "d' i = d i" by simp
          qed
          from ih(2) c(1) have "prefix (?E @ evs) (?PE w (s # ss))"
            unfolding pe se' by simp
          with run_ok_trans [OF run_ok_trans [OF ok1 run_ok_save [OF Some]] ih(1)] dict
          show ?thesis by (intro exI [of _ "?E @ evs"]) simp
        qed
      qed
    qed
  qed
qed

section \<open>The writes and saves of a run in field mode\<close>

lemma writes_append [simp]: "writes (xs @ ys) = writes xs @ writes ys"
  by (induction xs rule: writes.induct) auto

lemma write_and_save_simps [simp]:
  "write_and_save f [] = []"
  "write_and_save f (s # ss) = SetField (sid s) f # Save (sid s) # write_and_save f ss"
  "write_and_save f (xs @ ys) = write_and_save f xs @ write_and_save f ys"
  by (simp_all add: write_and_save_def)

lemma field_run_iff:
  "field_run f ps w w' =
     (\<exists>evs. trace w' = trace w @ evs \<and> writes evs = write_and_save f ps
        \<and> (\<forall>i g. g \<noteq> f \<or> i \<notin> sid ` set ps \<longrightarrow> store w' i g = store w i g)
        \<and> (\<forall>i \<in> sid ` set ps. \<exists>v. store w' i f = ArrayVal v))"
  by (auto simp add: field_run_def new_events_def)

lemma field_run_quiet:
  "store w' = store w \<Longrightarrow> trace w' = trace w @ evs \<Longrightarrow> writes evs = []
     \<Longrightarrow> field_run f [] w w'"
  by (simp add: field_run_def new_events_def)

lemma field_run_refl: "field_run f [] w w"
  by (rule field_run_quiet [of _ _ "[]"]) simp_all

lemma field_run_save: "field_run f [s] w (set_and_save s f (ArrayVal v) w)"
  by (simp add: field_run_def new_events_def)

lemma field_run_trans:
  assumes "field_run f ps w w1" "field_run f qs w1 w2"
  shows "field_run f (ps @ qs) w w2"
proof -
  from assms(1) obtain e1 where
    a: "trace w1 = trace w @ e1" "writes e1 = write_and_save f ps"
       "\<forall>i g. g \<noteq> f \<or> i \<notin> sid ` set ps \<longrightarrow> store w1 i g = store w i g"
       "\<forall>i \<in> sid ` set ps. \<exists>v. store w1 i f = ArrayVal v"
    unfolding field_run_iff by blast
  from assms(2) obtain e2 where
    b: "trace w2 = trace w1 @ e2" "writes e2 = write_and_save f qs"
       "\<forall>i g. g \<noteq> f \<or> i \<notin> sid ` set qs \<longrightarrow> store w2 i g = store w1 i g"
       "\<forall>i \<in> sid ` set qs. \<exists>v. store w2 i f = ArrayVal v"
    unfolding field_run_iff by blast
  have fr: "\<forall>i g. g \<noteq> f \<or> i \<notin> sid ` set (ps @ qs) \<longrightarrow> store w2 i g = store w i g"
  proof (intro allI impI)
    fix i g assume h: "g \<noteq> f \<or> i \<notin> sid ` set (ps @ qs)"
    then have "g \<noteq> f \<or> i \<notin> sid ` set ps" "g \<noteq> f \<or> i \<notin> sid ` set qs" by auto
    with a(3) b(3) show "store w2 i g = store w i g" by simp
  qed
  have ar: "\<forall>i \<in> sid ` set (ps @ qs). \<exists>v. store w2 i f = ArrayVal v"
  proof
    fix i assume i: "i \<in> sid ` set (ps @ qs)"
    show "\<exists>v. store w2 i f = ArrayVal v"
    proof (cases "i \<in> sid ` set qs")
      case True
      with b(4) show ?thesis by blast
    next
      case False
      with i have "i \<in> sid ` set ps" by auto
      with a(4) obtain v where "store w1 i f = ArrayVal v" by blast
      moreover from False b(3) have "store w2 i f = store w1 i f" by simp
      ultimately show ?thesis by simp
    qed
  qed
  from a(1,2) b(1,2) have "trace w2 = trace w @ (e1 @ e2)"
    "writes (e1 @ e2) = write_and_save f (ps @ qs)" by simp_all
  with fr ar show ?thesis unfolding field_run_iff by blast
qed

lemma field_run_quiet_then:
  "store w1 = store w \<Longrightarrow> trace w1 = trace w @ evs \<Longrightarrow> writes evs = []
     \<Longrightarrow> field_run f ps w1 w' \<Longrightarrow> field_run f ps w w'"
  using field_run_trans [OF field_run_quiet, of w1 w evs f ps w'] by simp

lemma field_run_mstate:
  "field_run f ps w0 w1 \<Longrightarrow> store w0 = store w \<Longrightarrow> trace w0 = trace w
     \<Longrightarrow> store w' = store w1 \<Longrightarrow> trace w' = trace w1 \<Longrightarrow> field_run f ps w w'"
  by (simp add: field_run_def new_events_def)

lemma single_loop_field_run:
  "truthy_field ef = Some f \<Longrightarrow> single_loop env m ef ss embs w = (r, w') \<Longrightarrow>
     \<exists>k. k \<le> length ss \<and> field_run f (take k ss) w w' \<and> (\<forall>x. r = Inr x \<longrightarrow> k = length ss)"
proof (induction ss arbitrary: embs w)
  case Nil
  then have "r = Inr embs" "w' = w" by simp_all
  then show ?case by (intro exI [of _ 0]) (simp add: field_run_refl)
next
  case (Cons s ss)
  let ?w0 = "emit (Decode (filepath s)) w"
  show ?case
  proof (cases "read_image env (filepath s)")
    case (Inl e)
    with Cons.prems have "r = Inl e" "w' = ?w0" by simp_all
    moreover have "field_run f [] w ?w0"
      by (rule field_run_quiet [of _ _ "[Decode (filepath s)]"]) simp_all
    ultimately show ?thesis by (intro exI [of _ 0]) simp
  next
    case img: (Inr img)
    obtain r1 w1 where ce: "call_embed m img ?w0 = (r1, w1)" by (cases "call_embed m img ?w0")
    from call_embed_effect [OF ce]
    have q: "store w1 = store w" "trace w1 = trace w @ [Decode (filepath s), EmbedCall img]"
      by simp_all
    have q0: "field_run f [] w w1"
      by (rule field_run_quiet [OF q]) simp
    show ?thesis
    proof (cases r1)
      case (Inl e)
      with Cons.prems img ce have "r = Inl e" "w' = w1" by simp_all
      with q0 show ?thesis by (intro exI [of _ 0]) simp
    next
      case emb: (Inr embedding)
      show ?thesis
      proof (cases "getitem0 embedding")
        case (Inl e)
        with Cons.prems img ce emb have "r = Inl e" "w' = w1" by simp_all
        with q0 show ?thesis by (intro exI [of _ 0]) simp
      next
        case (Inr v)
        let ?w2 = "set_and_save s f (ArrayVal v) w1"
        from Cons.prems img ce emb Inr
        have "single_loop env m ef ss embs ?w2 = (r, w')" by simp
        from Cons.IH [OF Cons.prems(1) this] obtain k where
          ih: "k \<le> length ss" "field_run f (take k ss) ?w2 w'"
              "\<forall>x. r = Inr x \<longrightarrow> k = length ss"
          by blast
        from field_run_trans [OF field_run_save ih(2)]
        have "field_run f (s # take k ss) w1 w'" by simp
        from field_run_quiet_then [OF q _ this] have "field_run f (s # take k ss) w w'" by simp
        with ih(1,3) show ?thesis by (intro exI [of _ "Suc k"]) simp
      qed
    qed
  qed
qed

lemma video_loop_field_run:
  "truthy_field ef = Some f \<Longrightarrow> video_loop env m ef ss embs w = (r, w') \<Longrightarrow>
     \<exists>k. k \<le> length ss \<and> field_run f (take k ss) w w' \<and> (\<forall>x. r = Inr x \<longrightarrow> k = length ss)"
proof (induction ss arbitrary: embs w)
  case Nil
  then have "r = Inr embs" "w' = w" by simp_all
  then show ?case by (intro exI [of _ 0]) (simp add: field_run_refl)
next
  case (Cons s ss)
  let ?w0 = "emit (OpenVideo (filepath s)) w"
  show ?case
  proof (cases "open_video env (filepath s)")
    case (Inl e)
    with Cons.prems have "r = Inl e" "w' = ?w0" by simp_all
    moreover have "field_run f [] w ?w0"
      by (rule field_run_quiet [of _ _ "[OpenVideo (filepath s)]"]) simp_all
    ultimately show ?thesis by (intro exI [of _ 0]) simp
  next
    case img: (Inr img)
    obtain r1 w1 where ce: "call_embed m img ?w0 = (r1, w1)" by (cases "call_embed m img ?w0")
    from call_embed_effect [OF ce]
    have q: "store w1 = store w" "trace w1 = trace w @ [OpenVideo (filepath s), EmbedCall img]"
      by simp_all
    have q0: "field_run f [] w w1"
      by (rule field_run_quiet [OF q]) simp
    show ?thesis
    proof (cases r1)
      case (Inl e)
      with Cons.prems img ce have "r = Inl e" "w' = w1" by simp_all
      with q0 show ?thesis by (intro exI [of _ 0]) simp
    next
      case emb: (Inr embedding)
      show ?thesis
      proof (cases "getitem0 embedding")
        case (Inl e)
        with Cons.prems img ce emb have "r = Inl e" "w' = w1" by simp_all
        with q0 show ?thesis by (intro exI [of _ 0]) simp
      next
        case (Inr v)
        let ?w2 = "set_and_save s f (ArrayVal v) w1"
        from Cons.prems img ce emb Inr
        have "video_loop env m ef ss embs ?w2 = (r, w')" by simp
        from Cons.IH [OF Cons.prems(1) this] obtain k where
          ih: "k \<le> length ss" "field_run f (take k ss) ?w2 w'"
              "\<forall>x. r = Inr x \<longrightarrow> k = length ss"
          by blast
        from field_run_trans [OF field_run_save ih(2)]
        have "field_run f (s # take k ss) w1 w'" by simp
        from field_run_quiet_then [OF q _ this] have "field_run f (s # take k ss) w w'" by simp
        with ih(1,3) show ?thesis by (intro exI [of _ "Suc k"]) simp
      qed
    qed
  qed
qed

lemma read_all_quiet:
  "read_all env sb w = (r, w') \<Longrightarrow>
     store w' = store w \<and> (\<exists>evs. trace w' = trace w @ evs \<and> writes evs = [])
     \<and> (\<forall>imgs. r = Inr imgs \<longrightarrow> length imgs = length sb)"
proof (induction sb arbitrary: w r w')
  case Nil
  then show ?case by auto
next
  case (Cons s sb)
  let ?w0 = "emit (Decode (filepath s)) w"
  show ?case
  proof (cases "read_image env (filepath s)")
    case (Inl e)
    with Cons.prems have "r = Inl e" "w' = ?w0" by simp_all
    then show ?thesis by (auto intro!: exI [of _ "[Decode (filepath s)]"])
  next
    case (Inr img)
    obtain r1 w1 where ra: "read_all env sb ?w0 = (r1, w1)" by (cases "read_all env sb ?w0")
    from Cons.IH [OF ra] obtain evs where
      ih: "store w1 = store ?w0" "trace w1 = trace ?w0 @ evs" "writes evs = []"
          "\<forall>imgs. r1 = Inr imgs \<longrightarrow> length imgs = length sb"
      by blast
    from Cons.prems Inr ra have res: "w' = w1"
      "r = (case r1 of Inl e \<Rightarrow> Inl e | Inr imgs \<Rightarrow> Inr (img # imgs))"
      by (auto split: sum.splits)
    from res(2) ih(4) have "\<forall>imgs. r = Inr imgs \<longrightarrow> length imgs = length (s # sb)"
      by (auto split: sum.splits)
    with ih(1,2,3) res(1) show ?thesis
      by (intro conjI exI [of _ "Decode (filepath s) # evs"]) simp_all
  qed
qed

lemma write_rows_field_run:
  "field_run f (take (length rs) sb) w (write_rows f sb rs w)"
proof (induction sb arbitrary: rs w)
  case Nil
  show ?case by (simp add: field_run_refl)
next
  case step: (Cons s ss)
  show ?case
  proof (cases rs)
    case Nil
    then show ?thesis by (simp add: field_run_refl)
  next
    case rows: (Cons r rs')
    from field_run_trans [OF field_run_save step.IH [of rs' "set_and_save s f (ArrayVal r) w"]]
    show ?thesis using rows by simp
  qed
qed

lemma batch_prefixes_simps [simp]:
  "batch_prefixes [] bss = []"
  "batch_prefixes ns [] = []"
  "batch_prefixes (n # ns) (sb # bss) = take n sb @ batch_prefixes ns bss"
  by (simp_all add: batch_prefixes_def)

lemma batch_prefixes_Nil_ex: "\<exists>ns. [] = batch_prefixes ns bss"
  by (intro exI [of _ "[]"]) simp

lemma subseq_batch_prefixes: "subseq (batch_prefixes ns bss) (concat bss)"
proof (induction bss arbitrary: ns)
  case Nil
  show ?case by simp
next
  case (Cons sb bss)
  show ?case
  proof (cases ns)
    case Nil
    then show ?thesis by simp
  next
    case (Cons n ns')
    have "subseq (take n sb) sb" by (intro prefix_imp_subseq take_is_prefix)
    from this Cons.IH [of ns']
    have "subseq (take n sb @ batch_prefixes ns' bss) (sb @ concat bss)"
      by (rule list_emb_append_mono)
    with Cons show ?thesis by simp
  qed
qed

lemma batch_loop_field_run:
  "truthy_field ef = Some f \<Longrightarrow> batch_loop env m ef bss embs w = (r, w') \<Longrightarrow>
     \<exists>ns. field_run f (batch_prefixes ns bss) w w'
       \<and> (\<forall>x. r = Inr x \<and> row_per_input m \<longrightarrow> batch_prefixes ns bss = concat bss)"
proof (induction bss arbitrary: embs w)
  case Nil
  then have "w' = w" by simp
  then show ?case by (intro exI [of _ "[]"]) (simp add: field_run_refl)
next
  case (Cons sb bss)
  obtain r0 w0 where ra: "read_all env sb w = (r0, w0)" by (cases "read_all env sb w")
  from read_all_quiet [OF ra] obtain e0 where
    e0: "store w0 = store w" "trace w0 = trace w @ e0" "writes e0 = []"
        "\<forall>imgs. r0 = Inr imgs \<longrightarrow> length imgs = length sb"
    by blast
  show ?case
  proof (cases r0)
    case (Inl e)
    with Cons.prems ra have "w' = w0" "r = Inl e" by simp_all
    with field_run_quiet [OF e0(1,2,3)] show ?thesis by (intro exI [of _ "[]"]) simp
  next
    case imgs: (Inr imgs)
    with e0(4) have len: "length imgs = length sb" by simp
    obtain r1 w1 where ce: "call_embed_all m imgs w0 = (r1, w1)"
      by (cases "call_embed_all m imgs w0")
    from ce have ms: "embed_all m imgs (mstate w0) = (r1, mstate w1)"
      by (auto simp add: call_embed_all_def split: prod.splits)
    from call_embed_all_effect [OF ce] e0
    have q: "store w1 = store w" "trace w1 = trace w @ (e0 @ [EmbedAllCall imgs])"
      "writes (e0 @ [EmbedAllCall imgs]) = []"
      by simp_all
    show ?thesis
    proof (cases r1)
      case (Inl e)
      with Cons.prems ra imgs ce have "w' = w1" "r = Inl e" by simp_all
      with field_run_quiet [OF q] show ?thesis by (intro exI [of _ "[]"]) simp
    next
      case eb: (Inr embeddings_batch)
      show ?thesis
      proof (cases "rows embeddings_batch")
        case (Inl e)
        with Cons.prems ra imgs ce eb have "w' = w1" "r = Inl e" by simp_all
        with field_run_quiet [OF q] show ?thesis by (intro exI [of _ "[]"]) simp
      next
        case (Inr rs)
        let ?w2 = "write_rows f sb rs w1"
        from Cons.prems ra imgs ce eb Inr
        have "batch_loop env m ef bss embs ?w2 = (r, w')" by simp
        from Cons.IH [OF Cons.prems(1) this] obtain ns where
          ih: "field_run f (batch_prefixes ns bss) ?w2 w'"
              "\<forall>x. r = Inr x \<and> row_per_input m \<longrightarrow> batch_prefixes ns bss = concat bss"
          by blast
        from field_run_trans [OF write_rows_field_run ih(1)]
        have "field_run f (take (length rs) sb @ batch_prefixes ns bss) w1 w'" .
        from field_run_quiet_then [OF q this]
        have fr: "field_run f (batch_prefixes (length rs # ns) (sb # bss)) w w'" by simp
        have ex: "\<forall>x. r = Inr x \<and> row_per_input m
            \<longrightarrow> batch_prefixes (length rs # ns) (sb # bss) = concat (sb # bss)"
        proof (intro allI impI)
          fix x assume h: "r = Inr x \<and> row_per_input m"
          with ih(2) have p: "batch_prefixes ns bss = concat bss" by blast
          from h ms eb Inr have "length imgs \<le> length rs"
            unfolding row_per_input_def by blast
          with len p show "batch_prefixes (length rs # ns) (sb # bss) = concat (sb # bss)"
            by simp
        qed
        from fr ex show ?thesis by (intro exI [of _ "length rs # ns"]) simp
      qed
    qed
  qed
qed

lemma finish_with_model_field_run:
  assumes "finish_embeddings ef (with_model m body w) = (r, w')"
    and "\<And>w0 r1 w1. body w0 = (r1, w1)
           \<Longrightarrow> \<exists>ps. field_run f ps w0 w1 \<and> P ps \<and> (\<forall>embs. r1 = Inr embs \<longrightarrow> Q ps)"
  shows "\<exists>ps. field_run f ps w w' \<and> P ps \<and> (\<forall>x. r = Inr x \<longrightarrow> Q ps)"
proof -
  obtain r1 w1 where wm: "with_model m body w = (r1, w1)"
    by (cases "with_model m body w")
  with assms(1) have fin: "finish_embeddings ef (r1, w1) = (r, w')" by simp
  then have w': "w' = w1" by (rule finish_embeddings_world)
  from with_model_world [OF wm] obtain w2 where
    b: "body (w\<lparr>mstate := enter_model m (mstate w)\<rparr>) = (r1, w2)"
    and eq: "store w1 = store w2" "trace w1 = trace w2" by blast
  from assms(2) [OF b] obtain ps where
    k: "field_run f ps (w\<lparr>mstate := enter_model m (mstate w)\<rparr>) w2" "P ps"
       "\<forall>embs. r1 = Inr embs \<longrightarrow> Q ps"
    by blast
  from field_run_mstate [OF k(1) _ _ eq] have ok: "field_run f ps w w'" using w' by simp
  have "\<forall>x. r = Inr x \<longrightarrow> Q ps"
  proof (intro allI impI)
    fix x assume "r = Inr x"
    with fin have "finish_embeddings ef (r1, w1) = (Inr x, w')" by simp
    then obtain embs where "r1 = Inr embs" by (auto dest: finish_embeddings_Inr)
    with k(3) show "Q ps" by simp
  qed
  with ok k(2) show ?thesis by (intro exI [of _ ps]) simp
qed

lemma field_run_after_parse:
  assumes "store w1 = store w" "trace w1 = trace w \<or> trace w1 = trace w @ [Warning]"
    and "field_run f ps w1 w'"
  shows "field_run f ps w w'"
proof -
  from assms(2) show ?thesis
  proof
    assume "trace w1 = trace w"
    then have "trace w1 = trace w @ []" by simp
    from field_run_quiet_then [OF assms(1) this _ assms(3)] show ?thesis by simp
  next
    assume t: "trace w1 = trace w @ [Warning]"
    from field_run_quiet_then [OF assms(1) t _ assms(3)] show ?thesis by simp
  qed
qed


lemma default_embed_all_row_per_input:
  assumes "embed_all_override m = None"
  shows "row_per_input m"
  unfolding row_per_input_def
proof (intro allI impI)
  fix xs s a s' rs
  assume h: "embed_all m xs s = (Inr a, s') \<and> rows a = Inr rs"
  with assms obtain es where es: "embed_each m xs s = (Inr es, s')" and st: "np_stack es = Inr a"
    by (auto simp add: embed_all_def EmbeddingsMixin_embed_all_def split: prod.splits sum.splits)
  from es have len: "length es = length xs" by (rule embed_each_length)
  from np_stack_Inr [OF st] have "shape a = length es # shape (hd es)" by simp
  with h have "length rs = length es" by (auto simp add: rows_def)
  with len show "length xs \<le> length rs" by simp
qed

lemma prefix_field_run:
  assumes "\<exists>k. k \<le> length ss \<and> field_run f (take k ss) w0 w1
          \<and> (\<forall>x. r1 = Inr x \<longrightarrow> k = length ss)"
  shows "\<exists>ps. field_run f ps w0 w1 \<and> prefix ps ss \<and> (\<forall>embs. r1 = Inr embs \<longrightarrow> ps = ss)"
proof -
  from assms obtain k where k: "k \<le> length ss" "field_run f (take k ss) w0 w1"
    "\<forall>x. r1 = Inr x \<longrightarrow> k = length ss" by blast
  then show ?thesis by (intro exI [of _ "take k ss"]) (auto simp add: take_is_prefix)
qed

lemma compute_embeddings_field_run:
  assumes run: "compute_embeddings env coll m ef bs w = (r, w')"
    and nt: "\<not> is_torch_model_mixin m"
    and tf: "truthy_field ef = Some f"
  shows "\<exists>ps. field_run f ps w w' \<and> subseq ps (samples coll)
      \<and> (media_type coll = VIDEO
           \<or> fst (parse_batch_size (default_batch_size env) bs m w) = Inr None
         \<longrightarrow> prefix ps (samples coll))
      \<and> (\<forall>b. media_type coll \<noteq> VIDEO
            \<and> fst (parse_batch_size (default_batch_size env) bs m w) = Inr (Some b)
         \<longrightarrow> (\<exists>ns. ps = batch_prefixes ns (iter_batches (samples coll) b)))
      \<and> (\<forall>x. r = Inr x
            \<and> (media_type coll = VIDEO
                \<or> fst (parse_batch_size (default_batch_size env) bs m w) = Inr None
                \<or> (\<exists>b. fst (parse_batch_size (default_batch_size env) bs m w) = Inr (Some b)
                      \<and> 1 \<le> b \<and> row_per_input m))
            \<longrightarrow> ps = samples coll)"
proof (cases "is_embeddings_mixin m \<and> has_embeddings m = Inr True")
  case False
  with run have "w' = w" "\<exists>e. r = Inl e"
    by (auto simp add: compute_embeddings_def split: sum.splits bool.splits if_splits)
  then show ?thesis
    by (intro exI [of _ "[]"]) (auto simp add: field_run_refl batch_prefixes_Nil_ex)
next
  case cap: True
  let ?ss = "samples coll"
  note loop = prefix_field_run
  show ?thesis
  proof (cases "media_type coll = VIDEO")
    case True
    with cap run have "finish_embeddings ef
        (with_model m (video_loop env m ef ?ss []) w) = (r, w')"
      by (simp add: compute_embeddings_def compute_video_embeddings_def)
    then have "\<exists>ps. field_run f ps w w' \<and> prefix ps ?ss \<and> (\<forall>x. r = Inr x \<longrightarrow> ps = ?ss)"
    proof (rule finish_with_model_field_run [where
        P = "\<lambda>ps. prefix ps ?ss" and Q = "\<lambda>ps. ps = ?ss"])
      fix w0 r1 w1 assume "video_loop env m ef ?ss [] w0 = (r1, w1)"
      from loop [OF video_loop_field_run [OF tf this]]
      show "\<exists>ps. field_run f ps w0 w1 \<and> prefix ps ?ss \<and> (\<forall>embs. r1 = Inr embs \<longrightarrow> ps = ?ss)" .
    qed
    then obtain ps where e: "field_run f ps w w'" "prefix ps ?ss"
      "\<forall>x. r = Inr x \<longrightarrow> ps = ?ss"
      by (elim exE conjE)
    from prefix_imp_subseq [OF e(2)] e True show ?thesis by (intro exI [of _ ps]) simp
  next
    case img: False
    obtain rb w1 where pb: "parse_batch_size (default_batch_size env) bs m w = (rb, w1)"
      by (cases "parse_batch_size (default_batch_size env) bs m w")
    note p = parse_batch_size_run [OF pb]
    note ap = field_run_after_parse [OF conjunct1 [OF p] conjunct2 [OF conjunct2 [OF p]]]
    show ?thesis
    proof (cases rb)
      case (Inl e)
      with cap img nt pb run have "w' = w1" "r = Inl e"
        by (simp_all add: compute_embeddings_def)
      with ap [OF field_run_refl] Inl pb img show ?thesis
        by (intro exI [of _ "[]"]) simp
    next
      case (Inr ob)
      show ?thesis
      proof (cases ob)
        case None
        with Inr cap img nt pb run have "finish_embeddings ef
            (with_model m (single_loop env m ef ?ss []) w1) = (r, w')"
          by (simp add: compute_embeddings_def compute_image_embeddings_single_def)
        then have "\<exists>ps. field_run f ps w1 w' \<and> prefix ps ?ss
            \<and> (\<forall>x. r = Inr x \<longrightarrow> ps = ?ss)"
        proof (rule finish_with_model_field_run [where
            P = "\<lambda>ps. prefix ps ?ss" and Q = "\<lambda>ps. ps = ?ss"])
          fix w0 r1 w2 assume "single_loop env m ef ?ss [] w0 = (r1, w2)"
          from loop [OF single_loop_field_run [OF tf this]]
          show "\<exists>ps. field_run f ps w0 w2 \<and> prefix ps ?ss
              \<and> (\<forall>embs. r1 = Inr embs \<longrightarrow> ps = ?ss)" .
        qed
        then obtain ps where e: "field_run f ps w1 w'" "prefix ps ?ss"
          "\<forall>x. r = Inr x \<longrightarrow> ps = ?ss"
          by (elim exE conjE)
        have "fst (parse_batch_size (default_batch_size env) bs m w) = Inr None"
          using pb Inr None by simp
        with ap [OF e(1)] prefix_imp_subseq [OF e(2)] e(2,3) show ?thesis
          by (intro exI [of _ ps]) simp
      next
        case (Some b)
        with Inr cap img nt pb run have fin: "finish_embeddings ef
            (with_model m (batch_loop env m ef (iter_batches ?ss b) []) w1) = (r, w')"
          by (simp add: compute_embeddings_def compute_image_embeddings_batch_def)
        let ?BP = "\<lambda>ps. \<exists>ns. ps = batch_prefixes ns (iter_batches ?ss b)"
        have bl: "\<exists>ps. field_run f ps w0 w2 \<and> ?BP ps
            \<and> (\<forall>embs. r1 = Inr embs \<longrightarrow> (1 \<le> b \<and> row_per_input m \<longrightarrow> ps = ?ss))"
          if "batch_loop env m ef (iter_batches ?ss b) [] w0 = (r1, w2)" for w0 r1 w2
        proof -
          from batch_loop_field_run [OF tf that] obtain ns where
            k: "field_run f (batch_prefixes ns (iter_batches ?ss b)) w0 w2"
               "\<forall>x. r1 = Inr x \<and> row_per_input m
                  \<longrightarrow> batch_prefixes ns (iter_batches ?ss b) = concat (iter_batches ?ss b)"
            by blast
          from k(2)
          have "\<forall>embs. r1 = Inr embs \<longrightarrow> (1 \<le> b \<and> row_per_input m
              \<longrightarrow> batch_prefixes ns (iter_batches ?ss b) = ?ss)"
            by (auto simp add: concat_iter_batches)
          with k(1) show ?thesis
            by (intro exI [of _ "batch_prefixes ns (iter_batches ?ss b)"] conjI exI [of _ ns])
               simp_all
        qed
        from fin have "\<exists>ps. field_run f ps w1 w' \<and> ?BP ps
            \<and> (\<forall>x. r = Inr x \<longrightarrow> (1 \<le> b \<and> row_per_input m \<longrightarrow> ps = ?ss))"
        proof (rule finish_with_model_field_run [where P = ?BP
            and Q = "\<lambda>ps. 1 \<le> b \<and> row_per_input m \<longrightarrow> ps = ?ss"])
          fix w0 r1 w2 assume "batch_loop env m ef (iter_batches ?ss b) [] w0 = (r1, w2)"
          from bl [OF this]
          show "\<exists>ps. field_run f ps w0 w2 \<and> ?BP ps
              \<and> (\<forall>embs. r1 = Inr embs \<longrightarrow> (1 \<le> b \<and> row_per_input m \<longrightarrow> ps = ?ss))" .
        qed
        then obtain ps ns where e: "field_run f ps w1 w'" "?BP ps"
          "\<forall>x. r = Inr x \<longrightarrow> (1 \<le> b \<and> row_per_input m \<longrightarrow> ps = ?ss)"
          and ns: "ps = batch_prefixes ns (iter_batches ?ss b)"
          by blast
        have sq: "subseq ps ?ss"
        proof (cases "b \<le> 0")
          case True
          then have "iter_batches ?ss b = []" by (subst iter_batches.simps) simp
          with ns show ?thesis by simp
        next
          case False
          with subseq_batch_prefixes [of ns "iter_batches ?ss b"] ns show ?thesis
            by (simp add: concat_iter_batches)
        qed
        have nb: "fst (parse_batch_size (default_batch_size env) bs m w) = Inr (Some b)"
          using pb Inr Some by simp
        from e(3) have "\<forall>x. r = Inr x
            \<and> (media_type coll = VIDEO
                \<or> fst (parse_batch_size (default_batch_size env) bs m w) = Inr None
                \<or> (\<exists>b. fst (parse_batch_size (default_batch_size env) bs m w) = Inr (Some b)
                      \<and> 1 \<le> b \<and> row_per_input m))
            \<longrightarrow> ps = ?ss"
          unfolding nb using img by simp
        with ap [OF e(1)] sq e(2) nb img show ?thesis
          by (intro exI [of _ ps]) simp
      qed
    qed
  qed
qed

lemma prefix_writes_quiet: "prefix evs full \<Longrightarrow> writes full = [] \<Longrightarrow> writes evs = []"
  by (auto elim!: prefixE)

lemma writes_map_EmbedCall [simp]: "writes (map (\<lambda>x. EmbedCall (g x)) xs) = []"
  by (induction xs) auto

lemma writes_map_EmbedAllCall [simp]: "writes (map (\<lambda>x. EmbedAllCall (g x)) ys) = []"
  by (induction ys) auto

lemma writes_patch_calls [simp]: "writes (patch_calls env bs fs alpha img dets) = []"
  by (simp add: patch_calls_def split: option.splits)

lemma embed_sample_patches_quiet:
  assumes "embed_sample_patches env m bs fs alpha s dets w = (r, w1)"
  shows "store w1 = store w \<and> (\<exists>evs. trace w1 = trace w @ evs \<and> writes evs = [])"
proof (cases "read_image env (filepath s)")
  case (Inl e)
  with assms have "w1 = emit (Decode (filepath s)) w"
    by (simp add: embed_sample_patches_failed_read)
  then show ?thesis by (auto intro!: exI [of _ "[Decode (filepath s)]"])
next
  case (Inr img)
  from embed_sample_patches_run [OF assms Inr] obtain evs where
    e: "store w1 = store w" "trace w1 = trace w @ Decode (filepath s) # evs"
       "prefix evs (patch_calls env bs fs alpha img dets)"
    by blast
  from prefix_writes_quiet [OF e(3)] have "writes evs = []" by simp
  with e(1,2) show ?thesis by (intro conjI exI [of _ "Decode (filepath s) # evs"]) simp_all
qed

lemma has_detections_cong:
  "store w2 (sid x) pf = store w (sid x) pf
     \<Longrightarrow> has_detections env w2 x pf = has_detections env w x pf"
  by (simp add: has_detections_def parse_patches_def)

lemma patch_loop_field_run:
  "distinct (map sid ss) \<Longrightarrow> truthy_field ef = Some f
     \<Longrightarrow> patch_loop env m pf ef bs fs alpha ss d w = (r, w') \<Longrightarrow>
     \<exists>ps. field_run f ps w w'
       \<and> prefix ps (filter (\<lambda>s. has_detections env w s pf) ss)
       \<and> (\<forall>d'. r = Inr d' \<longrightarrow> ps = filter (\<lambda>s. has_detections env w s pf) ss)"
proof (induction ss arbitrary: d w)
  case Nil
  then have "r = Inr d" "w' = w" by simp_all
  then show ?case by (intro exI [of _ "[]"]) (simp add: field_run_refl)
next
  case (Cons s ss)
  let ?H = "\<lambda>w x. has_detections env w x pf"
  from Cons.prems(1) have dist: "distinct (map sid ss)" and notin: "\<forall>x \<in> set ss. sid x \<noteq> sid s"
    by (auto simp add: image_iff)
  show ?case
  proof (cases "?H w s")
    case False
    with Cons.prems(3) have "patch_loop env m pf ef bs fs alpha ss d w = (r, w')"
      by (auto simp add: has_detections_def split: option.splits)
    from Cons.IH [OF dist Cons.prems(2) this] False show ?thesis by simp
  next
    case True
    then obtain dets where dets: "parse_patches env w s pf = Some dets" "dets \<noteq> []"
      by (auto simp add: has_detections_def split: option.splits)
    obtain r1 w1 where esp: "embed_sample_patches env m bs fs alpha s dets w = (r1, w1)"
      by (cases "embed_sample_patches env m bs fs alpha s dets w")
    from embed_sample_patches_quiet [OF esp] obtain evs1 where
      q: "store w1 = store w" "trace w1 = trace w @ evs1" "writes evs1 = []"
      by blast
    show ?thesis
    proof (cases r1)
      case (Inl e)
      with Cons.prems(2,3) dets esp have "r = Inl e" "w' = w1" by simp_all
      with field_run_quiet [OF q] show ?thesis by (intro exI [of _ "[]"]) simp
    next
      case a: (Inr a)
      let ?w2 = "set_and_save s f (ArrayVal a) w1"
      from Cons.prems(2,3) dets esp a
      have l: "patch_loop env m pf ef bs fs alpha ss d ?w2 = (r, w')" by simp
      from q(1) notin
      have same: "\<forall>x \<in> set ss. store ?w2 (sid x) pf = store w (sid x) pf" by simp
      have feq: "filter (?H ?w2) ss = filter (?H w) ss"
      proof (rule filter_cong [OF refl])
        fix x assume "x \<in> set ss"
        with same have "store ?w2 (sid x) pf = store w (sid x) pf" by (rule bspec)
        then show "?H ?w2 x = ?H w x" by (rule has_detections_cong)
      qed
      from Cons.IH [OF dist Cons.prems(2) l] obtain ps where
        ih: "field_run f ps ?w2 w'" "prefix ps (filter (?H ?w2) ss)"
            "\<forall>d'. r = Inr d' \<longrightarrow> ps = filter (?H ?w2) ss"
        by blast
      from field_run_trans [OF field_run_save ih(1)]
      have "field_run f (s # ps) w1 w'" by simp
      from field_run_quiet_then [OF q this] have fr: "field_run f (s # ps) w w'" .
      from ih(2,3) True have "prefix (s # ps) (filter (?H w) (s # ss))"
        "\<forall>d'. r = Inr d' \<longrightarrow> s # ps = filter (?H w) (s # ss)"
        unfolding feq by simp_all
      with fr show ?thesis by (intro exI [of _ "s # ps"]) simp
    qed
  qed
qed

lemma compute_patch_embeddings_field_run:
  assumes run: "compute_patch_embeddings env coll m pf ef bsz fs alpha w = (r, w')"
    and nt: "\<not> is_torch_model_mixin m"
    and dist: "distinct (map sid (samples coll))"
    and tf: "truthy_field ef = Some f"
  shows "\<exists>ps. field_run f ps w w'
      \<and> prefix ps (filter (\<lambda>s. has_detections env w s pf) (samples coll))
      \<and> (\<forall>x. r = Inr x \<longrightarrow> ps = filter (\<lambda>s. has_detections env w s pf) (samples coll))"
proof (cases "media_type coll = IMAGE \<and> is_embeddings_mixin m \<and> has_embeddings m = Inr True
    \<and> validate_collection_label_fields env coll pf = None")
  case False
  with run nt have "w' = w" "\<exists>e. r = Inl e"
    by (auto simp add: compute_patch_embeddings_def
          split: sum.splits bool.splits if_splits option.splits)
  then show ?thesis
    by (intro exI [of _ "[]"]) (auto simp add: field_run_refl)
next
  case cap: True
  let ?ss = "samples coll"
  let ?H = "\<lambda>w x. has_detections env w x pf"
  obtain rb w1 where pb: "parse_batch_size (default_batch_size env) bsz m w = (rb, w1)"
    by (cases "parse_batch_size (default_batch_size env) bsz m w")
  note p = parse_batch_size_run [OF pb]
  note ap = field_run_after_parse [OF conjunct1 [OF p] conjunct2 [OF conjunct2 [OF p]]]
  show ?thesis
  proof (cases rb)
    case (Inl e)
    with cap nt pb run have "w' = w1" "r = Inl e"
      by (simp_all add: compute_patch_embeddings_def)
    with ap [OF field_run_refl] show ?thesis by (intro exI [of _ "[]"]) simp
  next
    case (Inr b)
    obtain r2 w2 where wm: "with_model m (patch_loop env m pf ef b fs alpha ?ss Map.empty) w1
        = (r2, w2)"
      by (cases "with_model m (patch_loop env m pf ef b fs alpha ?ss Map.empty) w1")
    with Inr cap nt pb run have res: "w' = w2"
      "r = (case r2 of Inl e \<Rightarrow> Inl e
            | Inr d' \<Rightarrow> Inr (case truthy_field ef of None \<Rightarrow> Some d' | Some x \<Rightarrow> None))"
      by (auto simp add: compute_patch_embeddings_def split: sum.splits)
    let ?w1' = "w1\<lparr>mstate := enter_model m (mstate w1)\<rparr>"
    from with_model_world [OF wm] obtain w3 where
      b: "patch_loop env m pf ef b fs alpha ?ss Map.empty ?w1' = (r2, w3)"
      and eq: "store w2 = store w3" "trace w2 = trace w3" by blast
    from p have same: "\<forall>x \<in> set ?ss. store ?w1' (sid x) pf = store w (sid x) pf" by simp
    have feq: "filter (?H ?w1') ?ss = filter (?H w) ?ss"
    proof (rule filter_cong [OF refl])
      fix x assume "x \<in> set ?ss"
      with same have "store ?w1' (sid x) pf = store w (sid x) pf" by (rule bspec)
      then show "?H ?w1' x = ?H w x" by (rule has_detections_cong)
    qed
    from patch_loop_field_run [OF dist tf b] obtain ps where
      e: "field_run f ps ?w1' w3" "prefix ps (filter (?H ?w1') ?ss)"
         "\<forall>d'. r2 = Inr d' \<longrightarrow> ps = filter (?H ?w1') ?ss"
      by blast
    from field_run_mstate [OF e(1) _ _ eq] have "field_run f ps w1 w'" using res(1) by simp
    from ap [OF this] have fr: "field_run f ps w w'" .
    from res(2) e(3) have "\<forall>x. r = Inr x \<longrightarrow> ps = filter (?H w) ?ss"
      unfolding feq by (auto split: sum.splits)
    with fr e(2) show ?thesis unfolding feq by (intro exI [of _ ps]) simp
  qed
qed

section \<open>Samples without detections, the field mode, and batches of patches\<close>

lemma prefix_saved_ids: "prefix a b \<Longrightarrow> prefix (saved_ids a) (saved_ids b)"
  by (auto elim!: prefixE)

lemma prefix_set_fields: "prefix a b \<Longrightarrow> prefix (set_fields a) (set_fields b)"
  by (auto elim!: prefixE)



lemma calls_map_EmbedAllCall [simp]:
  "embed_all_calls (map (\<lambda>x. EmbedAllCall (g x)) ys) = map g ys"
  "embed_calls (map (\<lambda>x. EmbedAllCall (g x)) ys) = []"
  by (induction ys) auto

lemma calls_map_EmbedCall [simp]:
  "embed_calls (map (\<lambda>x. EmbedCall (f x)) xs) = map f xs"
  "embed_all_calls (map (\<lambda>x. EmbedCall (f x)) xs) = []"
  by (induction xs) auto

lemma sample_patch_events_saved:
  "saved_ids (sample_patch_events env pf ef bs fs alpha w s)
     = (if has_detections env w s pf \<and> truthy_field ef \<noteq> None
           \<and> (\<exists>img. read_image env (filepath s) = Inr img)
        then [sid s] else [])"
  by (auto simp add: sample_patch_events_def has_detections_def
        split: option.splits sum.splits)

lemma patch_events_saved:
  "saved_ids (patch_events env pf ef bs fs alpha w ss)
     = map sid (filter (\<lambda>s. has_detections env w s pf \<and> truthy_field ef \<noteq> None
                           \<and> (\<exists>img. read_image env (filepath s) = Inr img)) ss)"
  by (induction ss) (simp_all add: patch_events_def sample_patch_events_saved)





lemma run_ok_new_events: "run_ok ef w w' evs \<Longrightarrow> new_events w w' = evs"
  by (simp add: run_ok_def new_events_def)

lemma compute_patch_embeddings_run:
  assumes run: "compute_patch_embeddings env coll m pf ef bsz fs alpha w = (r, w')"
    and nt: "\<not> is_torch_model_mixin m"
    and dist: "distinct (map sid (samples coll))"
  shows "\<exists>evs0 evs. run_ok ef w w' (evs0 @ evs)
      \<and> saved_ids evs0 = [] \<and> set_fields evs0 = []
      \<and> embed_all_calls evs0 = [] \<and> embed_calls evs0 = []
      \<and> (\<forall>b. fst (parse_batch_size (default_batch_size env) bsz m w) = Inr b \<longrightarrow>
            prefix evs (patch_events env pf ef b fs alpha w (samples coll))
            \<and> (\<forall>x. r = Inr x \<longrightarrow>
                  evs = patch_events env pf ef b fs alpha w (samples coll)
                  \<and> (\<forall>d' i. x = Some d'
                        \<and> i \<notin> sid ` {x \<in> set (samples coll). has_detections env w x pf}
                        \<longrightarrow> d' i = None)))
      \<and> (\<forall>e. fst (parse_batch_size (default_batch_size env) bsz m w) = Inl e \<longrightarrow> evs = [])"
proof (cases "media_type coll = IMAGE \<and> is_embeddings_mixin m \<and> has_embeddings m = Inr True
    \<and> validate_collection_label_fields env coll pf = None")
  case False
  with run nt have "w' = w" "\<exists>e. r = Inl e"
    by (auto simp add: compute_patch_embeddings_def
          split: sum.splits bool.splits if_splits option.splits)
  then show ?thesis
    by (intro exI [of _ "[]"]) (auto simp add: run_ok_refl)
next
  case cap: True
  obtain rb w1 where pb: "parse_batch_size (default_batch_size env) bsz m w = (rb, w1)"
    by (cases "parse_batch_size (default_batch_size env) bsz m w")
  note p = parse_batch_size_run [OF pb]
  show ?thesis
  proof (cases rb)
    case (Inl e)
    with cap nt pb run have res: "w' = w1" "r = Inl e"
      by (simp_all add: compute_patch_embeddings_def)
    from p have "run_ok ef w1 w1 []" by (simp add: run_ok_refl)
    from run_ok_after_parse [OF conjunct1 [OF p] conjunct2 [OF conjunct2 [OF p]] this]
    obtain evs0 where "run_ok ef w w1 (evs0 @ [])" "saved_ids evs0 = []" "set_fields evs0 = []"
      "embed_all_calls evs0 = []" "embed_calls evs0 = []" by blast
    with res Inl pb show ?thesis
      by (intro exI [of _ evs0] exI [of _ "[]"]) simp
  next
    case (Inr b)
    let ?ss = "samples coll"
    obtain r2 w2 where wm: "with_model m (patch_loop env m pf ef b fs alpha ?ss Map.empty) w1
        = (r2, w2)"
      by (cases "with_model m (patch_loop env m pf ef b fs alpha ?ss Map.empty) w1")
    with Inr cap nt pb run have res: "w' = w2"
      "r = (case r2 of Inl e \<Rightarrow> Inl e
            | Inr d' \<Rightarrow> Inr (case truthy_field ef of None \<Rightarrow> Some d' | Some x \<Rightarrow> None))"
      by (auto simp add: compute_patch_embeddings_def split: sum.splits)
    from with_model_world [OF wm] obtain w3 where
      b: "patch_loop env m pf ef b fs alpha ?ss Map.empty (w1\<lparr>mstate := enter_model m (mstate w1)\<rparr>)
            = (r2, w3)"
      and eq: "store w2 = store w3" "trace w2 = trace w3" by blast
    let ?w1' = "w1\<lparr>mstate := enter_model m (mstate w1)\<rparr>"
    from p have same: "\<forall>x \<in> set ?ss. store ?w1' (sid x) pf = store w (sid x) pf" by simp
    note c = patch_events_cong(1) [OF same, of env ef b fs alpha]
             patch_events_cong(2) [OF same, of env]
    from patch_loop_run [OF dist b] obtain evs where
      e: "run_ok ef ?w1' w3 evs" "prefix evs (patch_events env pf ef b fs alpha ?w1' ?ss)"
         "\<forall>d'. r2 = Inr d' \<longrightarrow> evs = patch_events env pf ef b fs alpha ?w1' ?ss
             \<and> (\<forall>i. i \<notin> sid ` {x \<in> set ?ss. has_detections env ?w1' x pf}
                   \<longrightarrow> d' i = Map.empty i)"
      by blast
    from run_ok_mstate [OF e(1) _ _ eq] have ok: "run_ok ef w1 w' evs" using res(1) by simp
    from run_ok_after_parse [OF conjunct1 [OF p] conjunct2 [OF conjunct2 [OF p]] ok]
    obtain evs0 where e0: "run_ok ef w w' (evs0 @ evs)" "saved_ids evs0 = []"
      "set_fields evs0 = []" "embed_all_calls evs0 = []" "embed_calls evs0 = []" by blast
    from e(2) have pre: "prefix evs (patch_events env pf ef b fs alpha w ?ss)"
      by (simp only: c(1))
    have succ: "\<forall>x. r = Inr x \<longrightarrow>
                  evs = patch_events env pf ef b fs alpha w ?ss
                  \<and> (\<forall>d' i. x = Some d'
                        \<and> i \<notin> sid ` {x \<in> set ?ss. has_detections env w x pf}
                        \<longrightarrow> d' i = None)"
    proof (intro allI impI)
      fix x assume rx: "r = Inr x"
      with res(2) obtain d2 where d2: "r2 = Inr d2"
        "x = (case truthy_field ef of None \<Rightarrow> Some d2 | Some x \<Rightarrow> None)"
        by (cases r2) auto
      from e(3) d2(1) have a: "evs = patch_events env pf ef b fs alpha ?w1' ?ss"
        and bb: "\<forall>i. i \<notin> sid ` {x \<in> set ?ss. has_detections env ?w1' x pf} \<longrightarrow> d2 i = None"
        by auto
      from a have a': "evs = patch_events env pf ef b fs alpha w ?ss" by (simp only: c(1))
      from bb have b': "\<forall>i. i \<notin> sid ` {x \<in> set ?ss. has_detections env w x pf} \<longrightarrow> d2 i = None"
        by (simp only: c(2))
      from d2(2) b' have "\<forall>d' i. x = Some d'
            \<and> i \<notin> sid ` {x \<in> set ?ss. has_detections env w x pf} \<longrightarrow> d' i = None"
        by (auto split: option.splits)
      with a' show "evs = patch_events env pf ef b fs alpha w ?ss
                  \<and> (\<forall>d' i. x = Some d'
                        \<and> i \<notin> sid ` {x \<in> set ?ss. has_detections env w x pf}
                        \<longrightarrow> d' i = None)" by simp
    qed
    from e0 pre succ Inr pb show ?thesis
      by (intro exI [of _ evs0] exI [of _ evs]) simp
  qed
qed

lemma patch_events_saved_subset:
  "set (saved_ids (patch_events env pf ef b fs alpha w ss))
     \<subseteq> sid ` {x \<in> set ss. has_detections env w x pf}"
  by (auto simp add: patch_events_saved)

lemma patch_events_saved_subseq:
  "subseq (saved_ids (patch_events env pf ef b fs alpha w ss)) (map sid ss)"
  unfolding patch_events_saved by (rule subseq_map) (rule subseq_filter_left)

lemma compute_patch_embeddings_saved:
  assumes run: "compute_patch_embeddings env coll m pf ef bsz fs alpha w = (r, w')"
    and nt: "\<not> is_torch_model_mixin m"
    and dist: "distinct (map sid (samples coll))"
  shows "\<exists>es. run_ok ef w w' es
      \<and> set (saved_ids es) \<subseteq> sid ` {x \<in> set (samples coll). has_detections env w x pf}
      \<and> subseq (saved_ids es) (map sid (samples coll))
      \<and> (\<forall>d' i. r = Inr (Some d')
            \<and> i \<notin> sid ` {x \<in> set (samples coll). has_detections env w x pf} \<longrightarrow> d' i = None)"
proof -
  let ?P = "parse_batch_size (default_batch_size env) bsz m w"
  let ?B = "\<lambda>evs0 evs. run_ok ef w w' (evs0 @ evs)
      \<and> saved_ids evs0 = [] \<and> set_fields evs0 = []
      \<and> embed_all_calls evs0 = [] \<and> embed_calls evs0 = []
      \<and> (\<forall>b. fst ?P = Inr b \<longrightarrow>
            prefix evs (patch_events env pf ef b fs alpha w (samples coll))
            \<and> (\<forall>x. r = Inr x \<longrightarrow>
                  evs = patch_events env pf ef b fs alpha w (samples coll)
                  \<and> (\<forall>d' i. x = Some d'
                        \<and> i \<notin> sid ` {x \<in> set (samples coll). has_detections env w x pf}
                        \<longrightarrow> d' i = None)))
      \<and> (\<forall>e. fst ?P = Inl e \<longrightarrow> evs = [])"
  from compute_patch_embeddings_run [OF run nt dist] have "\<exists>evs0 evs. ?B evs0 evs" .
  then obtain evs0 where "\<exists>evs. ?B evs0 evs" ..
  then obtain evs where all: "?B evs0 evs" ..
  note e = all [THEN conjunct1] all [THEN conjunct2, THEN conjunct1]
    all [THEN conjunct2, THEN conjunct2, THEN conjunct2, THEN conjunct2, THEN conjunct2,
         THEN conjunct1]
    all [THEN conjunct2, THEN conjunct2, THEN conjunct2, THEN conjunct2, THEN conjunct2,
         THEN conjunct2]
  show ?thesis
  proof (cases "fst ?P")
    case (Inl e')
    with e(4) have "evs = []" by simp
    moreover from Inl run nt have "\<exists>e. r = Inl e"
      by (auto simp add: compute_patch_embeddings_def
            split: sum.splits bool.splits if_splits option.splits prod.splits)
    ultimately show ?thesis using e(1,2) by (intro exI [of _ "evs0 @ evs"]) auto
  next
    case (Inr b)
    with e(3) have pre: "prefix evs (patch_events env pf ef b fs alpha w (samples coll))"
      and dict: "\<forall>x. r = Inr x \<longrightarrow> (\<forall>d' i. x = Some d'
                        \<and> i \<notin> sid ` {x \<in> set (samples coll). has_detections env w x pf}
                        \<longrightarrow> d' i = None)"
      by simp_all
    from prefix_saved_ids [OF pre]
    have p: "prefix (saved_ids evs) (saved_ids (patch_events env pf ef b fs alpha w (samples coll)))" .
    then have "set (saved_ids evs)
        \<subseteq> set (saved_ids (patch_events env pf ef b fs alpha w (samples coll)))"
      by (rule set_mono_prefix)
    with patch_events_saved_subset [of env pf ef b fs alpha w "samples coll"]
    have sub: "set (saved_ids evs) \<subseteq> sid ` {x \<in> set (samples coll). has_detections env w x pf}"
      by blast
    from prefix_imp_subseq [OF p] patch_events_saved_subseq [of env pf ef b fs alpha w "samples coll"]
    have sq: "subseq (saved_ids evs) (map sid (samples coll))"
      by (rule subseq_order.trans)
    from e(1,2) sub sq dict show ?thesis by (intro exI [of _ "evs0 @ evs"]) auto
  qed
qed

lemma skipped_id_not_processed:
  assumes "s \<in> set ss" "distinct (map sid ss)" "\<not> has_detections env w s pf"
  shows "sid s \<notin> sid ` {x \<in> set ss. has_detections env w x pf}"
proof
  assume "sid s \<in> sid ` {x \<in> set ss. has_detections env w x pf}"
  then obtain x where x: "x \<in> set ss" "has_detections env w x pf" "sid x = sid s" by auto
  from assms(2) have "inj_on sid (set ss)" by (simp add: distinct_map)
  with x(1,3) assms(1) have "x = s" by (auto dest: inj_onD)
  with x(2) assms(3) show False by simp
qed

lemma run_ok_untouched:
  assumes "run_ok ef w w' es" "i \<notin> set (saved_ids es)"
  shows "store w' i = store w i" and "i \<notin> fst ` set (set_fields es)"
proof -
  from assms(1) have sf: "set_fields es
      = (case truthy_field ef of None \<Rightarrow> [] | Some f \<Rightarrow> map (\<lambda>i. (i, f)) (saved_ids es))"
    and fr: "\<forall>i g. (i, g) \<notin> set (set_fields es) \<longrightarrow> store w' i g = store w i g"
    by (simp_all add: run_ok_def)
  from assms(2) show ni: "i \<notin> fst ` set (set_fields es)"
    unfolding sf by (auto split: option.splits)
  then have "\<forall>g. (i, g) \<notin> set (set_fields es)" by force
  with fr show "store w' i = store w i" by (auto simp add: fun_eq_iff)
qed

text \<open>
  C5. A sample whose patch source resolves to no detection (\<open>_parse_patches\<close> gives
  \<open>None\<close> or an empty \<open>Detections\<close>) is passed over: the loop at that sample is the loop
  on the remaining samples, from the same dictionary and the same world, so nothing is
  raised for it and the rest is processed. For a collection with distinct sample ids
  and a model without the data-loader path, \<open>compute_patch_embeddings\<close> leaves every
  field of such a sample as it was, neither sets nor saves it, and returns a dictionary
  with no entry under its id.
\<close>

theorem samples_without_detections_are_skipped:
  "\<not> has_detections env w s pf \<Longrightarrow>
     patch_loop env m pf ef bs fs alpha (s # ss) d w = patch_loop env m pf ef bs fs alpha ss d w
     \<and> (s \<in> set (samples coll) \<and> distinct (map sid (samples coll)) \<and> \<not> is_torch_model_mixin m
          \<and> compute_patch_embeddings env coll m pf ef bsz fs alpha w = (r, w') \<longrightarrow>
        store w' (sid s) = store w (sid s)
        \<and> sid s \<notin> set (saved_ids (new_events w w'))
        \<and> sid s \<notin> fst ` set (set_fields (new_events w w'))
        \<and> (\<forall>d'. r = Inr (Some d') \<longrightarrow> d' (sid s) = None))"
proof -
  assume nd: "\<not> has_detections env w s pf"
  then have 1: "patch_loop env m pf ef bs fs alpha (s # ss) d w
      = patch_loop env m pf ef bs fs alpha ss d w"
    by (auto simp add: has_detections_def split: option.splits)
  have 2: "s \<in> set (samples coll) \<and> distinct (map sid (samples coll)) \<and> \<not> is_torch_model_mixin m
          \<and> compute_patch_embeddings env coll m pf ef bsz fs alpha w = (r, w') \<longrightarrow>
        store w' (sid s) = store w (sid s)
        \<and> sid s \<notin> set (saved_ids (new_events w w'))
        \<and> sid s \<notin> fst ` set (set_fields (new_events w w'))
        \<and> (\<forall>d'. r = Inr (Some d') \<longrightarrow> d' (sid s) = None)"
  proof
    assume h: "s \<in> set (samples coll) \<and> distinct (map sid (samples coll))
        \<and> \<not> is_torch_model_mixin m
        \<and> compute_patch_embeddings env coll m pf ef bsz fs alpha w = (r, w')"
    then have run: "compute_patch_embeddings env coll m pf ef bsz fs alpha w = (r, w')"
      and nt: "\<not> is_torch_model_mixin m" and dist: "distinct (map sid (samples coll))"
      and mem: "s \<in> set (samples coll)" by simp_all
    from compute_patch_embeddings_saved [OF run nt dist] obtain es where
      es: "run_ok ef w w' es"
        "set (saved_ids es) \<subseteq> sid ` {x \<in> set (samples coll). has_detections env w x pf}"
        "\<forall>d' i. r = Inr (Some d')
            \<and> i \<notin> sid ` {x \<in> set (samples coll). has_detections env w x pf} \<longrightarrow> d' i = None"
      by blast
    note skip = skipped_id_not_processed [OF mem dist nd]
    with es(2) have ns: "sid s \<notin> set (saved_ids es)" by blast
    from run_ok_new_events [OF es(1)] have ne: "new_events w w' = es" .
    from run_ok_untouched [OF es(1) ns] ns es(3) skip
    show "store w' (sid s) = store w (sid s)
        \<and> sid s \<notin> set (saved_ids (new_events w w'))
        \<and> sid s \<notin> fst ` set (set_fields (new_events w w'))
        \<and> (\<forall>d'. r = Inr (Some d') \<longrightarrow> d' (sid s) = None)"
      unfolding ne by blast
  qed
  from 1 2 show ?thesis by blast
qed

text \<open>
  C9, as amended. In field mode (\<open>embeddings_field\<close> a non-empty name \<open>f\<close>), on a
  collection with distinct sample ids and a model without the data-loader path, the
  writes and saves of \<open>compute_embeddings\<close> and of \<open>compute_patch_embeddings\<close> are, for a
  list \<open>ps\<close> of samples of the collection in its order, exactly these: the field \<open>f\<close> of
  the first sample of \<open>ps\<close> is set and that sample is saved, then the same for the
  second, and so on. So no field but \<open>f\<close> is set, a sample of \<open>ps\<close> is written once and
  saved once, right after its write, and no other sample is written or saved; every
  other field of every sample, and every field of a sample outside \<open>ps\<close>, is unchanged,
  so \<open>patches_field\<close>, when it is not \<open>f\<close>, keeps its contents; and \<open>f\<close> holds an array on
  each sample of \<open>ps\<close>. On the unbatched and the video path \<open>ps\<close> is the samples before
  the one at which an exception was raised, and all samples when the call returns. For
  \<open>compute_patch_embeddings\<close> it is the samples with detections before that point, and
  all samples with detections when the call returns. On the batched path \<open>ps\<close> is a
  leading part of each batch, batch after batch (\<open>zip\<close> stops at the shorter of the batch
  and the rows that \<open>embed_all\<close> returned); it is all samples when the call returns, the
  negotiated size is at least 1 and \<open>embed_all\<close> returns at least one row per input, as
  the default \<open>embed_all\<close> does.
\<close>

theorem field_mode_writes_and_saves:
  "truthy_field ef = Some f \<Longrightarrow> distinct (map sid (samples coll)) \<Longrightarrow> \<not> is_torch_model_mixin m \<Longrightarrow>
     (compute_embeddings env coll m ef bsz w = (r, w') \<longrightarrow>
        (\<exists>ps. field_run f ps w w' \<and> subseq ps (samples coll)
           \<and> (media_type coll = VIDEO
                \<or> fst (parse_batch_size (default_batch_size env) bsz m w) = Inr None
              \<longrightarrow> prefix ps (samples coll))
           \<and> (\<forall>b. media_type coll \<noteq> VIDEO
                 \<and> fst (parse_batch_size (default_batch_size env) bsz m w) = Inr (Some b)
              \<longrightarrow> (\<exists>ns. ps = batch_prefixes ns (iter_batches (samples coll) b)))
           \<and> (\<forall>x. r = Inr x
                 \<and> (media_type coll = VIDEO
                     \<or> fst (parse_batch_size (default_batch_size env) bsz m w) = Inr None
                     \<or> (\<exists>b. fst (parse_batch_size (default_batch_size env) bsz m w)
                              = Inr (Some b)
                           \<and> 1 \<le> b \<and> row_per_input m))
                 \<longrightarrow> ps = samples coll)))
     \<and> (compute_patch_embeddings env coll m pf ef bsz fs alpha w = (r2, w2) \<longrightarrow>
        (\<exists>ps. field_run f ps w w2
           \<and> prefix ps (filter (\<lambda>s. has_detections env w s pf) (samples coll))
           \<and> (\<forall>x. r2 = Inr x
                 \<longrightarrow> ps = filter (\<lambda>s. has_detections env w s pf) (samples coll)))
        \<and> (pf \<noteq> f \<longrightarrow> (\<forall>i. store w2 i pf = store w i pf)))
     \<and> (embed_all_override m = None \<longrightarrow> row_per_input m)"
proof -
  assume tf: "truthy_field ef = Some f" and dist: "distinct (map sid (samples coll))"
    and nt: "\<not> is_torch_model_mixin m"
  have 1: "compute_embeddings env coll m ef bsz w = (r, w') \<longrightarrow>
        (\<exists>ps. field_run f ps w w' \<and> subseq ps (samples coll)
           \<and> (media_type coll = VIDEO
                \<or> fst (parse_batch_size (default_batch_size env) bsz m w) = Inr None
              \<longrightarrow> prefix ps (samples coll))
           \<and> (\<forall>b. media_type coll \<noteq> VIDEO
                 \<and> fst (parse_batch_size (default_batch_size env) bsz m w) = Inr (Some b)
              \<longrightarrow> (\<exists>ns. ps = batch_prefixes ns (iter_batches (samples coll) b)))
           \<and> (\<forall>x. r = Inr x
                 \<and> (media_type coll = VIDEO
                     \<or> fst (parse_batch_size (default_batch_size env) bsz m w) = Inr None
                     \<or> (\<exists>b. fst (parse_batch_size (default_batch_size env) bsz m w)
                              = Inr (Some b)
                           \<and> 1 \<le> b \<and> row_per_input m))
                 \<longrightarrow> ps = samples coll))"
    by (rule impI) (rule compute_embeddings_field_run [OF _ nt tf])
  have 2: "compute_patch_embeddings env coll m pf ef bsz fs alpha w = (r2, w2) \<longrightarrow>
        (\<exists>ps. field_run f ps w w2
           \<and> prefix ps (filter (\<lambda>s. has_detections env w s pf) (samples coll))
           \<and> (\<forall>x. r2 = Inr x
                 \<longrightarrow> ps = filter (\<lambda>s. has_detections env w s pf) (samples coll)))
        \<and> (pf \<noteq> f \<longrightarrow> (\<forall>i. store w2 i pf = store w i pf))"
  proof
    assume run: "compute_patch_embeddings env coll m pf ef bsz fs alpha w = (r2, w2)"
    note ex = compute_patch_embeddings_field_run [OF run nt dist tf]
    then obtain ps where "field_run f ps w w2" by blast
    then have "pf \<noteq> f \<longrightarrow> (\<forall>i. store w2 i pf = store w i pf)"
      by (simp add: field_run_def)
    with ex show "(\<exists>ps. field_run f ps w w2
           \<and> prefix ps (filter (\<lambda>s. has_detections env w s pf) (samples coll))
           \<and> (\<forall>x. r2 = Inr x
                 \<longrightarrow> ps = filter (\<lambda>s. has_detections env w s pf) (samples coll)))
        \<and> (pf \<noteq> f \<longrightarrow> (\<forall>i. store w2 i pf = store w i pf))" by (rule conjI)
  qed
  have 3: "embed_all_override m = None \<longrightarrow> row_per_input m"
    by (rule impI) (rule default_embed_all_row_per_input)
  from 1 2 3 show ?thesis by (intro conjI)
qed


section \<open>The statements on the example collection\<close>

lemma demo_collection_facts:
  "samples demo_collection = demo_samples"
  "distinct (map sid (samples demo_collection))"
  "\<not> is_torch_model_mixin demo_model"
  "\<lparr>sid = ''s2'', filepath = ''bb''\<rparr> \<in> set (samples demo_collection)"
  by (simp_all add: demo_collection_def demo_samples_def demo_model_def)

lemma new_events_demo: "new_events demo_world w' = trace w'"
  by (simp add: new_events_def demo_world_def)

theorem samples_without_detections_are_skipped_witness:
  "\<not> has_detections demo_env demo_world \<lparr>sid = ''s2'', filepath = ''bb''\<rparr> ''gt''
   \<and> patch_loop demo_env demo_model ''gt'' (Some ''emb'') None False None
        [\<lparr>sid = ''s2'', filepath = ''bb''\<rparr>, \<lparr>sid = ''s3'', filepath = ''ccc''\<rparr>]
        Map.empty demo_world
      = patch_loop demo_env demo_model ''gt'' (Some ''emb'') None False None
          [\<lparr>sid = ''s3'', filepath = ''ccc''\<rparr>] Map.empty demo_world
   \<and> store (snd (compute_patch_embeddings demo_env demo_collection demo_model ''gt''
                   (Some ''emb'') None False None demo_world)) ''s2''
      = store demo_world ''s2''
   \<and> ''s2'' \<notin> set (saved_ids (trace (snd (compute_patch_embeddings demo_env demo_collection
                        demo_model ''gt'' (Some ''emb'') None False None demo_world))))
   \<and> saved_ids (trace (snd (compute_patch_embeddings demo_env demo_collection
                        demo_model ''gt'' (Some ''emb'') None False None demo_world)))
      = [''s1'']"
proof -
  define X where "X = compute_patch_embeddings demo_env demo_collection demo_model ''gt''
      (Some ''emb'') None False None demo_world"
  let ?s2 = "\<lparr>sid = ''s2'', filepath = ''bb''\<rparr>"
  have nd: "\<not> has_detections demo_env demo_world ?s2 ''gt''"
    by (simp add: has_detections_def parse_patches_def demo_world_def)
  have run: "compute_patch_embeddings demo_env demo_collection demo_model ''gt''
      (Some ''emb'') None False None demo_world = (fst X, snd X)"
    by (simp add: X_def)
  note t = samples_without_detections_are_skipped [OF nd]
  from t [THEN conjunct1, of demo_model "Some ''emb''" None False None
          "[\<lparr>sid = ''s3'', filepath = ''ccc''\<rparr>]" Map.empty]
  have a: "patch_loop demo_env demo_model ''gt'' (Some ''emb'') None False None
        [?s2, \<lparr>sid = ''s3'', filepath = ''ccc''\<rparr>] Map.empty demo_world
      = patch_loop demo_env demo_model ''gt'' (Some ''emb'') None False None
          [\<lparr>sid = ''s3'', filepath = ''ccc''\<rparr>] Map.empty demo_world" .
  from t [THEN conjunct2, rule_format, of demo_collection demo_model "Some ''emb''" None False
          None "fst X" "snd X"] demo_collection_facts run
  have b: "store (snd X) ''s2'' = store demo_world ''s2''"
    "''s2'' \<notin> set (saved_ids (trace (snd X)))"
    by (simp_all add: new_events_demo)
  have c: "saved_ids (trace (snd (compute_patch_embeddings demo_env demo_collection
                        demo_model ''gt'' (Some ''emb'') None False None demo_world)))
      = [''s1'']"
    by code_simp
  from nd a b c show ?thesis by (simp add: X_def)
qed

theorem field_mode_writes_and_saves_witness:
  "field_run ''emb'' demo_samples demo_world
     (snd (compute_embeddings demo_env demo_collection demo_model (Some ''emb'') None demo_world))
   \<and> row_per_input demo_model
   \<and> writes (trace (snd (compute_embeddings demo_env demo_collection demo_model (Some ''emb'')
                           (Some 2) demo_world)))
      = [SetField ''s1'' ''emb'', Save ''s1'', SetField ''s2'' ''emb'', Save ''s2'',
         SetField ''s3'' ''emb'', Save ''s3'']
   \<and> field_run ''emb'' [\<lparr>sid = ''s1'', filepath = ''a''\<rparr>] demo_world
       (snd (compute_patch_embeddings demo_env demo_collection demo_model ''gt''
               (Some ''emb'') None False None demo_world))
   \<and> store (snd (compute_patch_embeddings demo_env demo_collection demo_model ''gt''
                   (Some ''emb'') None False None demo_world)) ''s1'' ''gt''
      = store demo_world ''s1'' ''gt''"
proof -
  define X1 where "X1 = compute_embeddings demo_env demo_collection demo_model (Some ''emb'')
      None demo_world"
  define X3 where "X3 = compute_embeddings demo_env demo_collection demo_model (Some ''emb'')
      (Some 2) demo_world"
  define X2 where "X2 = compute_patch_embeddings demo_env demo_collection demo_model ''gt''
      (Some ''emb'') None False None demo_world"
  have tf: "truthy_field (Some ''emb'') = Some ''emb''" by (simp add: truthy_field_def)
  note t = field_mode_writes_and_saves [OF tf demo_collection_facts(2,3)]
  have run1: "compute_embeddings demo_env demo_collection demo_model (Some ''emb'')
      None demo_world = (fst X1, snd X1)" by (simp add: X1_def)
  have run3: "compute_embeddings demo_env demo_collection demo_model (Some ''emb'')
      (Some 2) demo_world = (fst X3, snd X3)" by (simp add: X3_def)
  have run2: "compute_patch_embeddings demo_env demo_collection demo_model ''gt''
      (Some ''emb'') None False None demo_world = (fst X2, snd X2)" by (simp add: X2_def)
  have r1: "fst (compute_embeddings demo_env demo_collection demo_model (Some ''emb'')
      None demo_world) = Inr None" by code_simp
  have r3: "fst (compute_embeddings demo_env demo_collection demo_model (Some ''emb'')
      (Some 2) demo_world) = Inr None" by code_simp
  have "\<not> isl (fst (compute_patch_embeddings demo_env demo_collection demo_model ''gt''
      (Some ''emb'') None False None demo_world))" by code_simp
  then obtain x2 where r2: "fst X2 = Inr x2" by (cases "fst X2") (simp_all add: X2_def)
  have pb1: "fst (parse_batch_size (default_batch_size demo_env) None demo_model demo_world)
      = Inr None" by (simp add: parse_batch_size_def demo_env_def)
  have pb3: "fst (parse_batch_size (default_batch_size demo_env) (Some 2) demo_model demo_world)
      = Inr (Some 2)" by (simp add: parse_batch_size_def demo_model_def)
  have "embed_all_override demo_model = None" by (simp add: demo_model_def)
  with t [THEN conjunct2, THEN conjunct2] have rpi: "row_per_input demo_model" by (rule mp)
  have a: "field_run ''emb'' demo_samples demo_world (snd X1)"
  proof -
    from t [THEN conjunct1, rule_format, OF run1] obtain ps where
      p: "field_run ''emb'' ps demo_world (snd X1)"
      and "subseq ps (samples demo_collection)"
      and "media_type demo_collection = VIDEO
             \<or> fst (parse_batch_size (default_batch_size demo_env) None demo_model demo_world)
                 = Inr None
           \<longrightarrow> prefix ps (samples demo_collection)"
      and "\<forall>b. media_type demo_collection \<noteq> VIDEO
             \<and> fst (parse_batch_size (default_batch_size demo_env) None demo_model demo_world)
                 = Inr (Some b)
           \<longrightarrow> (\<exists>ns. ps = batch_prefixes ns (iter_batches (samples demo_collection) b))"
      and p': "\<forall>x. fst X1 = Inr x
            \<and> (media_type demo_collection = VIDEO
                \<or> fst (parse_batch_size (default_batch_size demo_env) None demo_model demo_world)
                    = Inr None
                \<or> (\<exists>b. fst (parse_batch_size (default_batch_size demo_env) None demo_model
                               demo_world) = Inr (Some b)
                      \<and> 1 \<le> b \<and> row_per_input demo_model))
            \<longrightarrow> ps = samples demo_collection"
      by (elim exE conjE)
    from r1 have "fst X1 = Inr None" by (simp add: X1_def)
    with p' pb1 have "ps = samples demo_collection" by blast
    with p show ?thesis by (simp add: demo_collection_facts(1))
  qed
  have b: "field_run ''emb'' demo_samples demo_world (snd X3)"
  proof -
    from t [THEN conjunct1, rule_format, OF run3] obtain ps where
      p: "field_run ''emb'' ps demo_world (snd X3)"
      and "subseq ps (samples demo_collection)"
      and "media_type demo_collection = VIDEO
             \<or> fst (parse_batch_size (default_batch_size demo_env) (Some 2) demo_model
                      demo_world) = Inr None
           \<longrightarrow> prefix ps (samples demo_collection)"
      and "\<forall>b. media_type demo_collection \<noteq> VIDEO
             \<and> fst (parse_batch_size (default_batch_size demo_env) (Some 2) demo_model
                      demo_world) = Inr (Some b)
           \<longrightarrow> (\<exists>ns. ps = batch_prefixes ns (iter_batches (samples demo_collection) b))"
      and p': "\<forall>x. fst X3 = Inr x
            \<and> (media_type demo_collection = VIDEO
                \<or> fst (parse_batch_size (default_batch_size demo_env) (Some 2) demo_model
                         demo_world) = Inr None
                \<or> (\<exists>b. fst (parse_batch_size (default_batch_size demo_env) (Some 2) demo_model
                               demo_world) = Inr (Some b)
                      \<and> 1 \<le> b \<and> row_per_input demo_model))
            \<longrightarrow> ps = samples demo_collection"
      by (elim exE conjE)
    from r3 have "fst X3 = Inr None" by (simp add: X3_def)
    moreover from pb3 rpi
    have "\<exists>b. fst (parse_batch_size (default_batch_size demo_env) (Some 2) demo_model
                               demo_world) = Inr (Some b)
                      \<and> 1 \<le> b \<and> row_per_input demo_model"
      by (intro exI [of _ 2]) simp
    ultimately have "ps = samples demo_collection" using p' by blast
    with p show ?thesis by (simp add: demo_collection_facts(1))
  qed
  then have b': "writes (trace (snd X3))
      = [SetField ''s1'' ''emb'', Save ''s1'', SetField ''s2'' ''emb'', Save ''s2'',
         SetField ''s3'' ''emb'', Save ''s3'']"
    by (simp add: field_run_def new_events_demo demo_samples_def)
  have flt: "filter (\<lambda>s. has_detections demo_env demo_world s ''gt'') (samples demo_collection)
      = [\<lparr>sid = ''s1'', filepath = ''a''\<rparr>]"
    by (simp add: demo_collection_def demo_samples_def has_detections_def parse_patches_def
          demo_world_def)
  from t [THEN conjunct2, THEN conjunct1, rule_format, OF run2]
  have c0: "\<exists>ps. field_run ''emb'' ps demo_world (snd X2)
           \<and> prefix ps (filter (\<lambda>s. has_detections demo_env demo_world s ''gt'')
                          (samples demo_collection))
           \<and> (\<forall>x. fst X2 = Inr x
                 \<longrightarrow> ps = filter (\<lambda>s. has_detections demo_env demo_world s ''gt'')
                            (samples demo_collection))"
    and d0: "''gt'' \<noteq> ''emb'' \<longrightarrow> (\<forall>i. store (snd X2) i ''gt'' = store demo_world i ''gt'')"
    by simp_all
  have c: "field_run ''emb'' [\<lparr>sid = ''s1'', filepath = ''a''\<rparr>] demo_world (snd X2)"
  proof -
    from c0 obtain ps where p: "field_run ''emb'' ps demo_world (snd X2)"
      and p': "\<forall>x. fst X2 = Inr x
                 \<longrightarrow> ps = filter (\<lambda>s. has_detections demo_env demo_world s ''gt'')
                            (samples demo_collection)"
      by blast
    from r2 p' have "ps = filter (\<lambda>s. has_detections demo_env demo_world s ''gt'')
                            (samples demo_collection)" by blast
    with p flt show ?thesis by simp
  qed
  from d0 have d: "store (snd X2) ''s1'' ''gt'' = store demo_world ''s1'' ''gt''" by simp
  from a rpi b' c d show ?thesis by (simp add: X1_def X2_def X3_def)
qed

text \<open>C9 as stated fails on the batched path, where \<open>zip\<close> stops at the shorter of the
  batch and the rows of the result of \<open>embed_all\<close>: with a model whose \<open>embed_all\<close> returns
  one row for a batch of two, the second sample of the batch is decoded and passed to
  \<open>embed_all\<close>, and the call returns \<open>None\<close>, but its field is never set and it is never
  saved.\<close>

theorem short_embed_all_leaves_a_sample_unsaved:
  "fst (compute_embeddings demo_env demo_collection first_row_model (Some ''emb'') (Some 2)
          demo_world) = Inr None
   \<and> new_events demo_world
       (snd (compute_embeddings demo_env demo_collection first_row_model (Some ''emb'') (Some 2)
               demo_world))
      = [Decode ''a'', Decode ''bb'', EmbedAllCall [1, 2], SetField ''s1'' ''emb'', Save ''s1'',
         Decode ''ccc'', EmbedAllCall [3], SetField ''s3'' ''emb'', Save ''s3'']
   \<and> store (snd (compute_embeddings demo_env demo_collection first_row_model (Some ''emb'')
                   (Some 2) demo_world)) ''s2'' ''emb'' = NoneVal"
  by code_simp


end
